theory Spec2Isabelle
  imports Main "HOL-Library.Sublist"
begin

section \<open>Python strings and numbers\<close>

text \<open>
  A Python \<open>str\<close> is modelled as a \<open>string\<close> whose characters are the code points
  below 256 (Latin-1), one \<open>char\<close> per code point.  Python's \<open>int\<close> is \<open>int\<close>; counters
  that the code keeps non-negative are \<open>nat\<close>.
\<close>

definition code :: "char \<Rightarrow> nat" where
  "code c = of_char c"

definition in_range :: "nat \<Rightarrow> nat \<Rightarrow> char \<Rightarrow> bool" where
  "in_range lo hi c \<longleftrightarrow> lo \<le> code c \<and> code c \<le> hi"

text \<open>
  \<open>str.isspace\<close> and the class \<open>\s\<close> of \<open>re\<close> (on \<open>str\<close> patterns) agree: tab, LF, VT, FF,
  CR, the separators 0x1C..0x1F, space, NEL (0x85) and the no-break space (0xA0).
\<close>

definition is_space :: "char \<Rightarrow> bool" where
  "is_space c \<longleftrightarrow> in_range 9 13 c \<or> in_range 28 32 c \<or> code c = 133 \<or> code c = 160"

text \<open>
  The class \<open>\w\<close> of \<open>re\<close> on \<open>str\<close> patterns: the alphanumeric characters and the
  underscore.  Below 256 these are the ASCII letters and digits and the Latin-1 letters
  and numeric characters.
\<close>

definition is_word :: "char \<Rightarrow> bool" where
  "is_word c \<longleftrightarrow>
     in_range 48 57 c \<or> in_range 65 90 c \<or> code c = 95 \<or> in_range 97 122 c \<or>
     code c = 170 \<or> in_range 178 179 c \<or> code c = 181 \<or> in_range 185 186 c \<or>
     in_range 188 190 c \<or> in_range 192 214 c \<or> in_range 216 246 c \<or> in_range 248 255 c"

text \<open>\<open>str.lower\<close>, one character: \<open>A\<close>..\<open>Z\<close> and the Latin-1 capitals 0xC0..0xDE but 0xD7.\<close>

definition lower_char :: "char \<Rightarrow> char" where
  "lower_char c =
     (if in_range 65 90 c \<or> (in_range 192 222 c \<and> code c \<noteq> 215) then char_of (code c + 32)
      else c)"

definition upper_char :: "char \<Rightarrow> char" where
  "upper_char c =
     (if in_range 97 122 c \<or> (in_range 224 254 c \<and> code c \<noteq> 247) then char_of (code c - 32)
      else c)"


definition endswith :: "string \<Rightarrow> string \<Rightarrow> bool" where
  "endswith s suf \<longleftrightarrow> length suf \<le> length s \<and> drop (length s - length suf) s = suf"

text \<open>\<open>str.strip()\<close>: whitespace is removed at both ends.\<close>

definition strip :: "string \<Rightarrow> string" where
  "strip s = rev (dropWhile is_space (rev (dropWhile is_space s)))"

text \<open>\<open>sep.join(xs)\<close>.\<close>

fun join :: "string \<Rightarrow> string list \<Rightarrow> string" where
  "join sep [] = []"
| "join sep [x] = x"
| "join sep (x # y # ys) = x @ sep @ join sep (y # ys)"

text \<open>
  \<open>s.split(sep)\<close> for a non-empty separator: the leftmost occurrences, not overlapping;
  \<open>cur\<close> is the piece being read.  (Python raises on an empty separator; the code only
  splits on \<open>&&\<close> and \<open>;\<close>.)
\<close>

fun split_from :: "string \<Rightarrow> string \<Rightarrow> string \<Rightarrow> string list" where
  "split_from sep cur [] = [cur]"
| "split_from sep cur (c # cs) =
     (if sep \<noteq> [] \<and> take (length sep) (c # cs) = sep
      then cur # split_from sep [] (drop (length sep - 1) cs)
      else split_from sep (cur @ [c]) cs)"

definition split :: "string \<Rightarrow> string \<Rightarrow> string list" where
  "split s sep = split_from sep [] s"

text \<open>
  \<open>str.splitlines()\<close>: a line ends at LF, CR, CR LF, VT, FF, 0x1C, 0x1D, 0x1E or NEL; the
  line breaks are dropped and no empty last line is produced.
\<close>

definition is_linebreak :: "char \<Rightarrow> bool" where
  "is_linebreak c \<longleftrightarrow> in_range 10 13 c \<or> in_range 28 30 c \<or> code c = 133"

fun splitlines_from :: "string \<Rightarrow> string \<Rightarrow> string list" where
  "splitlines_from cur [] = (if cur = [] then [] else [cur])"
| "splitlines_from cur [c] = (if is_linebreak c then [cur] else [cur @ [c]])"
| "splitlines_from cur (c # d # cs) =
     (if code c = 13 \<and> code d = 10 then cur # splitlines_from [] cs
      else if is_linebreak c then cur # splitlines_from [] (d # cs)
      else splitlines_from (cur @ [c]) (d # cs))"

definition splitlines :: "string \<Rightarrow> string list" where
  "splitlines s = splitlines_from [] s"

text \<open>\<open>str(n)\<close> for an integer.\<close>

fun str_nat :: "nat \<Rightarrow> string" where
  "str_nat n = (if n < 10 then [''0123456789'' ! n]
                else str_nat (n div 10) @ [''0123456789'' ! (n mod 10)])"

declare str_nat.simps [simp del]

definition str_int :: "int \<Rightarrow> string" where
  "str_int i = (if i < 0 then CHR ''-'' # str_nat (nat (- i)) else str_nat (nat i))"


section \<open>Regular expressions (the part of Python's \<open>re\<close> that the code uses)\<close>

text \<open>
  Patterns are syntax trees.  \<open>Str w\<close> is the literal text \<open>w\<close> (what \<open>re.escape(w)\<close>
  stands for), \<open>Space\<close> is \<open>\s\<close>, \<open>Dot\<close> is \<open>.\<close>, \<open>Bol\<close> and \<open>Eol\<close> are \<open>^\<close> and \<open>$\<close>,
  \<open>Wordb\<close> is \<open>\b\<close>, \<open>Set\<close> is a bracketed class.
\<close>

datatype citem = CChar char | CRange char char

datatype rx =
    Eps
  | Str string
  | Set "citem list"
  | Space
  | Dot
  | Bol
  | Eol
  | Wordb
  | Seq rx rx
  | Alt rx rx
  | Star rx
  | Plus rx
  | Opt rx

record re_flags =
  ignorecase :: bool
  multiline :: bool

definition no_flags :: re_flags where
  "no_flags = \<lparr> ignorecase = False, multiline = False \<rparr>"

definition flag_I :: re_flags where
  "flag_I = \<lparr> ignorecase = True, multiline = False \<rparr>"

definition flag_M :: re_flags where
  "flag_M = \<lparr> ignorecase = False, multiline = True \<rparr>"

definition char_match :: "re_flags \<Rightarrow> char \<Rightarrow> char \<Rightarrow> bool" where
  "char_match f p c \<longleftrightarrow> (if ignorecase f then lower_char p = lower_char c else p = c)"

fun item_has :: "citem \<Rightarrow> char \<Rightarrow> bool" where
  "item_has (CChar p) c = (p = c)"
| "item_has (CRange lo hi) c = in_range (code lo) (code hi) c"

definition set_match :: "re_flags \<Rightarrow> citem list \<Rightarrow> char \<Rightarrow> bool" where
  "set_match f items c \<longleftrightarrow>
     list_ex (\<lambda>it. item_has it c \<or>
                   (ignorecase f \<and> (item_has it (lower_char c) \<or> item_has it (upper_char c))))
             items"

definition at_bol :: "re_flags \<Rightarrow> string \<Rightarrow> nat \<Rightarrow> bool" where
  "at_bol f s i \<longleftrightarrow> i = 0 \<or> (multiline f \<and> i \<le> length s \<and> code (s ! (i - 1)) = 10)"

definition at_eol :: "re_flags \<Rightarrow> string \<Rightarrow> nat \<Rightarrow> bool" where
  "at_eol f s i \<longleftrightarrow>
     i = length s \<or> (Suc i = length s \<and> code (s ! i) = 10) \<or>
     (multiline f \<and> i < length s \<and> code (s ! i) = 10)"

definition at_wordb :: "string \<Rightarrow> nat \<Rightarrow> bool" where
  "at_wordb s i \<longleftrightarrow>
     (0 < i \<and> i \<le> length s \<and> is_word (s ! (i - 1))) \<noteq> (i < length s \<and> is_word (s ! i))"

text \<open>
  Repetition: the positions reachable from the frontier by applying \<open>step\<close> any number of
  times.  Every round adds at least one new position or stops, and positions are bounded by
  the length of the text, which bounds the number of rounds.
\<close>

fun star_close :: "(nat \<Rightarrow> nat list) \<Rightarrow> nat \<Rightarrow> nat list \<Rightarrow> nat list \<Rightarrow> nat list" where
  "star_close step 0 frontier seen = seen"
| "star_close step (Suc n) frontier seen =
     (let new = filter (\<lambda>j. j \<notin> set seen) (remdups (concat (map step frontier)))
      in if new = [] then seen else star_close step n new (seen @ new))"

text \<open>
  \<open>rx_ends f s r i\<close>: the positions where a match of \<open>r\<close> that starts at position \<open>i\<close> of
  the text \<open>s\<close> can end.
\<close>

primrec rx_ends :: "re_flags \<Rightarrow> string \<Rightarrow> rx \<Rightarrow> nat \<Rightarrow> nat list" where
  "rx_ends f s Eps i = [i]"
| "rx_ends f s (Str w) i =
     (if i + length w \<le> length s \<and> list_all2 (char_match f) w (take (length w) (drop i s))
      then [i + length w] else [])"
| "rx_ends f s (Set items) i = (if i < length s \<and> set_match f items (s ! i) then [Suc i] else [])"
| "rx_ends f s Space i = (if i < length s \<and> is_space (s ! i) then [Suc i] else [])"
| "rx_ends f s Dot i = (if i < length s \<and> code (s ! i) \<noteq> 10 then [Suc i] else [])"
| "rx_ends f s Bol i = (if at_bol f s i then [i] else [])"
| "rx_ends f s Eol i = (if at_eol f s i then [i] else [])"
| "rx_ends f s Wordb i = (if at_wordb s i then [i] else [])"
| "rx_ends f s (Seq a b) i = remdups (concat (map (rx_ends f s b) (rx_ends f s a i)))"
| "rx_ends f s (Alt a b) i = remdups (rx_ends f s a i @ rx_ends f s b i)"
| "rx_ends f s (Star a) i = star_close (rx_ends f s a) (Suc (length s)) [i] [i]"
| "rx_ends f s (Plus a) i =
     remdups (concat (map (\<lambda>j. star_close (rx_ends f s a) (Suc (length s)) [j] [j])
                          (rx_ends f s a i)))"
| "rx_ends f s (Opt a) i = remdups (i # rx_ends f s a i)"

text \<open>\<open>re.match\<close> looks for a match at the start of the text, \<open>re.search\<close> anywhere.\<close>

definition re_match :: "re_flags \<Rightarrow> rx \<Rightarrow> string \<Rightarrow> bool" where
  "re_match f r s \<longleftrightarrow> rx_ends f s r 0 \<noteq> []"

definition re_search :: "re_flags \<Rightarrow> rx \<Rightarrow> string \<Rightarrow> bool" where
  "re_search f r s \<longleftrightarrow> list_ex (\<lambda>i. rx_ends f s r i \<noteq> []) [0..<Suc (length s)]"

text \<open>Notation for writing patterns down: a sequence, an alternative of literal words.\<close>

definition cat :: "rx list \<Rightarrow> rx" where
  "cat rs = foldr Seq rs Eps"

fun alts :: "rx list \<Rightarrow> rx" where
  "alts [] = Set []"
| "alts [r] = r"
| "alts (r # q # rs) = Alt r (alts (q # rs))"

definition one_of :: "string list \<Rightarrow> rx" where
  "one_of ws = alts (map Str ws)"

definition Chr :: "char \<Rightarrow> rx" where
  "Chr c = Str [c]"

text \<open>
  \<open>re.sub(r'\s+', ' ', s)\<close>: every maximal run of whitespace becomes one space.
\<close>

fun sub_spaces :: "string \<Rightarrow> string" where
  "sub_spaces [] = []"
| "sub_spaces [c] = (if is_space c then '' '' else [c])"
| "sub_spaces (c # d # cs) =
     (if is_space c then (if is_space d then sub_spaces (d # cs) else CHR '' '' # sub_spaces (d # cs))
      else c # sub_spaces (d # cs))"

section \<open>Python values\<close>

text \<open>
  The values that \<open>json.loads\<close> produces and that the tools return.  A \<open>dict\<close> is an
  association list in insertion order; \<open>d[k] = v\<close> is \<open>dict_set\<close>, \<open>d.pop(k)\<close> removes the
  key, \<open>k in d\<close> is \<open>has_key\<close>.  Numbers are integers here.  An exception (an instance
  of \<open>Exception\<close>, which is what \<open>except Exception\<close> catches) is the value
  \<open>PyException msg\<close>, where \<open>msg\<close> is what \<open>str(e)\<close> gives.
\<close>

datatype jval =
    JNull
  | JBool bool
  | JInt int
  | JStr string
  | JList "jval list"
  | JObj "(string \<times> jval) list"

type_synonym pydict = "(string \<times> jval) list"

datatype py_exn = PyException string

fun str_exn :: "py_exn \<Rightarrow> string" where
  "str_exn (PyException msg) = msg"

definition has_key :: "pydict \<Rightarrow> string \<Rightarrow> bool" where
  "has_key d k \<longleftrightarrow> map_of d k \<noteq> None"

fun dict_set :: "pydict \<Rightarrow> string \<Rightarrow> jval \<Rightarrow> pydict" where
  "dict_set [] k v = [(k, v)]"
| "dict_set ((k', v') # d) k v = (if k' = k then (k, v) # d else (k', v') # dict_set d k v)"

definition dict_pop :: "pydict \<Rightarrow> string \<Rightarrow> pydict" where
  "dict_pop d k = filter (\<lambda>e. fst e \<noteq> k) d"

text \<open>Python's truth value of an object (\<open>if x:\<close>).\<close>

fun truthy :: "jval \<Rightarrow> bool" where
  "truthy JNull = False"
| "truthy (JBool b) = b"
| "truthy (JInt i) = (i \<noteq> 0)"
| "truthy (JStr s) = (s \<noteq> [])"
| "truthy (JList xs) = (xs \<noteq> [])"
| "truthy (JObj d) = (d \<noteq> [])"

fun type_name :: "jval \<Rightarrow> string" where
  "type_name JNull = ''NoneType''"
| "type_name (JBool b) = ''bool''"
| "type_name (JInt i) = ''int''"
| "type_name (JStr s) = ''str''"
| "type_name (JList xs) = ''list''"
| "type_name (JObj d) = ''dict''"

section \<open>Configuration lines (file_ops.py)\<close>

text \<open>
  The pattern of \<open>set_config_line\<close>, \<open>^\s*#?\s*KEY\b\<close> with \<open>re.I\<close>, and the pattern of
  \<open>verify_config_line\<close>, \<open>^\s*KEY\s+VALUE\b\<close> with \<open>re.M\<close>; \<open>KEY\<close> and \<open>VALUE\<close> are
  escaped, that is, literal.
\<close>

definition key_pattern :: "string \<Rightarrow> rx" where
  "key_pattern key = cat [Bol, Star Space, Opt (Chr CHR ''#''), Star Space, Str key, Wordb]"

definition key_value_pattern :: "string \<Rightarrow> string \<Rightarrow> rx" where
  "key_value_pattern key value = cat [Bol, Star Space, Str key, Plus Space, Str value, Wordb]"

text \<open>
  The loop of \<open>set_config_line\<close> over the lines: a matching line is replaced by the
  canonical line \<open>kv\<close> and sets \<open>found\<close>, any other line is kept.
\<close>

fun replace_lines ::
  "(string \<Rightarrow> bool) \<Rightarrow> string \<Rightarrow> string list \<Rightarrow> bool \<Rightarrow> string list \<Rightarrow> bool \<times> string list" where
  "replace_lines pat kv [] found out = (found, out)"
| "replace_lines pat kv (line # ls) found out =
     (if pat line then replace_lines pat kv ls True (out @ [kv])
      else replace_lines pat kv ls found (out @ [line]))"

definition set_config_line :: "string \<Rightarrow> string \<Rightarrow> string \<Rightarrow> string \<times> bool" where
  "set_config_line current key value =
    (let lines = splitlines current;
         pat = re_match flag_I (key_pattern key);
         kv = key @ '' '' @ value;
         (found, out0) = replace_lines pat kv lines False [];
         out = (if \<not> found then out0 @ [kv] else out0);
         new = join ''\<newline>'' out @
               (if \<not> (out \<noteq> [] \<and> endswith (last out) ''\<newline>'') then ''\<newline>'' else []);
         changed = (new \<noteq> (if endswith current ''\<newline>'' then current
                               else current @ (if current \<noteq> [] then ''\<newline>'' else [])))
     in (new, changed))"

definition verify_config_line :: "string \<Rightarrow> string \<Rightarrow> string \<Rightarrow> bool" where
  "verify_config_line content key value = re_search flag_M (key_value_pattern key value) content"

text \<open>
  What \<open>set_config_line\<close> compares the new content with: the old content, with a newline
  added when it is not empty and does not end with one.
\<close>

definition newline_normalized :: "string \<Rightarrow> string" where
  "newline_normalized current =
     (if endswith current ''\<newline>'' then current
      else current @ (if current \<noteq> [] then ''\<newline>'' else []))"

text \<open>
  The lines that \<open>set_config_line\<close> joins, without the loop: every matching line
  replaced, and the canonical line appended when no line matched.
\<close>

definition out_lines :: "(string \<Rightarrow> bool) \<Rightarrow> string \<Rightarrow> string list \<Rightarrow> string list" where
  "out_lines pat kv lines =
     map (\<lambda>l. if pat l then kv else l) lines @ (if list_ex pat lines then [] else [kv])"

definition config_out :: "string \<Rightarrow> string \<Rightarrow> string \<Rightarrow> string list" where
  "config_out current key value =
     out_lines (re_match flag_I (key_pattern key)) (key @ '' '' @ value) (splitlines current)"








section \<open>Tools (tools.py)\<close>

subsection \<open>The command allow-list\<close>

text \<open>The bracketed classes that occur in \<open>ALLOWED_CMD_PATTERNS\<close>.\<close>

definition alnum :: "citem list" where
  "alnum = [CRange CHR ''a'' CHR ''z'', CRange CHR ''A'' CHR ''Z'', CRange CHR ''0'' CHR ''9'']"

definition letters :: rx where
  "letters = Set [CRange CHR ''a'' CHR ''z'', CRange CHR ''A'' CHR ''Z'']"

text \<open>\<open>[a-zA-Z0-9_.-]\<close> and \<open>[a-zA-Z0-9._/\-]\<close>.\<close>

definition name_char :: rx where
  "name_char = Set (alnum @ [CChar CHR ''_'', CChar CHR ''.'', CChar CHR ''-''])"

definition path_char :: rx where
  "path_char = Set (alnum @ [CChar CHR ''.'', CChar CHR ''_'', CChar CHR ''/'', CChar CHR ''-''])"

definition ALLOWED_CMD_PATTERNS :: "rx list" where
  "ALLOWED_CMD_PATTERNS =
   [cat [Bol, Str ''systemctl'', Plus Space,
         one_of [''reload'', ''restart'', ''stop'', ''start'', ''status'', ''enable'', ''disable'',
                 ''list-units'', ''is-active'', ''is-enabled'', ''list-unit-files''],
         Plus Space, Star Dot, Eol],
    cat [Bol, Str ''service'', Plus Space, Plus name_char, Plus Space,
         one_of [''reload'', ''restart'', ''stop'', ''start'', ''status''], Eol],
    cat [Bol, Str ''update-rc.d'', Plus Space, Plus name_char, Plus Space,
         one_of [''enable'', ''disable''], Star Dot, Eol],
    cat [Bol, Str ''chkconfig'', Plus Space, Plus name_char, Plus Space,
         one_of [''on'', ''off''], Star Dot, Eol],
    cat [Bol, Str ''nohup'', Plus Space, Star Dot, Eol],
    cat [Bol, Str ''grep'', Plus Space, Str ''-'', Star letters,
         Opt (Set [CChar CHR ''n'', CChar CHR ''E'']), Plus Space, Plus Dot, Eol],
    cat [Bol, Str ''sed'', Plus Space, Str ''-'', Star letters,
         Opt (Set [CChar CHR ''i'', CChar CHR ''n'']), Plus Space,
         Chr (CHR 0x27), Plus Dot, Chr (CHR 0x27), Plus Space, Plus path_char, Eol],
    cat [Bol, Str ''cat'', Plus Space, Str ''/'', Plus path_char, Eol],
    cat [Bol, Str ''ls'', Plus Space, Str ''-'', Star letters, Star Space, Star path_char, Eol],
    cat [Bol, Str ''test'', Plus Space, Str ''-'', Plus letters, Plus Space, Plus path_char, Eol],
    cat [Bol, Str ''apt-get'', Plus Space,
         one_of [''update'', ''install'', ''remove'', ''purge'', ''upgrade'', ''autoremove''],
         Plus Space, Star Dot, Eol],
    cat [Bol, Str ''apt'', Plus Space,
         one_of [''update'', ''install'', ''remove'', ''purge'', ''upgrade'', ''autoremove'',
                 ''search'', ''list'', ''cache''],
         Plus Space, Star Dot, Eol],
    cat [Bol, Str ''apt-cache'', Plus Space, one_of [''search'', ''show'', ''policy''],
         Plus Space, Star Dot, Eol],
    cat [Bol, Str ''dpkg'', Plus Space, Str ''-'', Plus letters, Plus Space, Star Dot, Eol],
    cat [Bol, Str ''dpkg'', Plus Space, Str ''-l'', Star Space, Star Dot, Eol],
    cat [Bol, Str ''ps'', Plus Space, Str ''au'', Opt (Str ''x''), Eol],
    cat [Bol, Str ''pgrep'', Plus Space, Str ''-f'', Plus Space, Star Dot, Eol],
    cat [Bol, Str ''netstat'', Plus Space, Str ''-'', Star letters,
         Star (Set (map CChar ''tulpn'')), Eol],
    cat [Bol, Str ''ss'', Plus Space, Str ''-'', Star letters,
         Star (Set (map CChar ''tulpn'')), Eol],
    cat [Bol, Str ''which'', Plus Space, Plus name_char, Eol],
    cat [Bol, Str ''command'', Plus Space, Str ''-v'', Plus Space, Plus name_char, Eol],
    cat [Bol, Str ''mkdir'', Plus Space, Str ''-'', Star letters, Opt (Set [CChar CHR ''p'']),
         Plus Space, Star Dot, Eol],
    cat [Bol, Str ''chmod'', Plus Space,
         Plus (Set ([CRange CHR ''0'' CHR ''9'', CRange CHR ''a'' CHR ''z'',
                     CRange CHR ''A'' CHR ''Z'', CChar CHR ''+'', CChar CHR ''='', CChar CHR ''-''])),
         Plus Space, Str ''/'', Plus path_char, Eol],
    cat [Bol, Str ''chown'', Plus Space, Plus name_char,
         Opt (Seq (Str '':'') (Plus name_char)), Plus Space, Str ''/'', Plus path_char, Eol],
    cat [Bol, Str ''find'', Plus Space, Str ''/'', Plus path_char, Plus Space, Star Dot, Eol],
    cat [Bol, Str ''sleep'', Plus Space, Plus (Set [CRange CHR ''0'' CHR ''9'']), Eol],
    cat [Bol, Str ''openssl'', Plus Space, Star Dot, Eol],
    cat [Bol, Str ''ssh-keygen'', Plus Space, Star Dot, Eol],
    cat [Bol, Str ''cd'', Plus Space, Plus path_char, Eol],
    cat [Bol, Str ''pwd'', Eol],
    cat [Bol, Str ''touch'', Plus Space, Plus path_char, Eol]]"

definition cmd_allowed :: "string \<Rightarrow> bool" where
  "cmd_allowed cmd =
    (let cmd_clean = sub_spaces (strip cmd)
     in list_ex (\<lambda>p. re_match no_flags p cmd_clean) ALLOWED_CMD_PATTERNS)"

subsection \<open>\<open>tool_run_safe\<close> and \<open>tool_run_command\<close>\<close>

text \<open>
  The executor (\<open>get_executor().execute\<close>), like the container shell, is the environment:
  its answer to a command depends on the commands it has been given so far, and it may raise
  (the SSH backend does when no connection can be had).  The state passed along is the list
  of commands handed to the executor.
\<close>

type_synonym executor = "string list \<Rightarrow> string \<Rightarrow> py_exn + (int \<times> string \<times> string)"

text \<open>The loop over the command parts: the first part that is not empty and not allowed.\<close>

fun first_denied :: "string list \<Rightarrow> string option" where
  "first_denied [] = None"
| "first_denied (part # parts) =
     (let part' = strip part
      in if part' \<noteq> [] \<and> \<not> cmd_allowed part' then Some part' else first_denied parts)"

definition cmd_parts_of :: "string \<Rightarrow> string list" where
  "cmd_parts_of cmd =
     (let cmd_parts = split cmd ''&&''
      in if length cmd_parts = 1 then split cmd '';'' else cmd_parts)"

definition tool_run_safe :: "executor \<Rightarrow> string \<Rightarrow> string list \<Rightarrow> (py_exn + pydict) \<times> string list" where
  "tool_run_safe ex cmd log =
    (case first_denied (cmd_parts_of cmd) of
       Some part \<Rightarrow>
         (Inr [(''ok'', JBool False),
               (''stderr'', JStr (''command not allowed by policy: '' @ part))], log)
     | None \<Rightarrow>
         (case ex log cmd of
            Inl e \<Rightarrow> (Inl e, log @ [cmd])
          | Inr (rc, out, err) \<Rightarrow>
              (Inr [(''ok'', JBool (rc = 0)), (''rc'', JInt rc),
                    (''stdout'', JStr out), (''stderr'', JStr err)], log @ [cmd])))"

definition tool_run_command :: "executor \<Rightarrow> string \<Rightarrow> string list \<Rightarrow> (py_exn + pydict) \<times> string list" where
  "tool_run_command ex cmd log = tool_run_safe ex cmd log"

subsection \<open>\<open>tool_set_config_kv\<close>\<close>






definition example_executor :: executor where
  "example_executor log cmd = Inr (0, [], [])"

subsection \<open>\<open>dispatch_tool\<close>\<close>

text \<open>
  \<open>if src in d and dst not in d: d[dst] = d.pop(src)\<close>, the step that the normalisation
  repeats for each alias.
\<close>

definition rename_key :: "string \<Rightarrow> string \<Rightarrow> pydict \<Rightarrow> pydict" where
  "rename_key src dst d =
     (case map_of d src of
        Some v \<Rightarrow> if \<not> has_key d dst then dict_set (dict_pop d src) dst v else d
      | None \<Rightarrow> d)"

text \<open>
  \<open>" ".join(pkg_list)\<close> raises \<open>TypeError\<close> at the first item that is not a \<open>str\<close>.
\<close>

fun str_items :: "nat \<Rightarrow> jval list \<Rightarrow> py_exn + string list" where
  "str_items i [] = Inr []"
| "str_items i (JStr s # xs) =
     (case str_items (Suc i) xs of Inl e \<Rightarrow> Inl e | Inr ss \<Rightarrow> Inr (s # ss))"
| "str_items i (v # xs) =
     Inl (PyException (''sequence item '' @ str_nat i @ '': expected str instance, '' @
                       type_name v @ '' found''))"

definition package_value :: "jval \<Rightarrow> py_exn + jval" where
  "package_value pkg_list =
     (case pkg_list of
        JList xs \<Rightarrow> (case str_items 0 xs of Inl e \<Rightarrow> Inl e | Inr ss \<Rightarrow> Inr (JStr (join '' '' ss)))
      | _ \<Rightarrow> Inr pkg_list)"

definition move_package :: "string \<Rightarrow> pydict \<Rightarrow> py_exn + pydict" where
  "move_package src d =
     (case map_of d src of
        Some pkg_list \<Rightarrow>
          (case package_value pkg_list of
             Inl e \<Rightarrow> Inl e
           | Inr v \<Rightarrow> Inr (dict_set (dict_pop d src) ''package'' v))
      | None \<Rightarrow> Inr d)"

definition normalize_args :: "string \<Rightarrow> pydict \<Rightarrow> py_exn + pydict" where
  "normalize_args name args =
    (let d1 = rename_key ''service_name'' ''name'' args;
         d2 = rename_key ''file_path'' ''path'' d1
     in case (if has_key d2 ''package_names'' \<and> \<not> has_key d2 ''package''
              then move_package ''package_names'' d2
              else if has_key d2 ''packages'' \<and> \<not> has_key d2 ''package''
              then move_package ''packages'' d2
              else Inr d2) of
          Inl e \<Rightarrow> Inl e
        | Inr d3 \<Rightarrow>
            (let d4 = rename_key ''command'' ''cmd'' d3;
                 d5 = rename_key ''permissions'' ''mode'' d4;
                 d6 = rename_key ''regex_pattern'' ''regex'' d5
             in Inr (if name = ''search_packages'' \<and> has_key d6 ''package_name'' \<and>
                        \<not> has_key d6 ''query''
                     then rename_key ''package_name'' ''query'' d6
                     else rename_key ''package_name'' ''package'' d6)))"

text \<open>
  The branches of \<open>dispatch_tool\<close>, in the order of the source: the tool name, the
  parameters the branch checks, the message it returns when one is missing, and the
  function it calls with its parameters and, of these, the ones without a default.
\<close>

record tool_entry =
  checked :: "string list"
  missing_msg :: string
  fname :: string
  params :: "string list"
  required :: "string list"

definition entry :: "string list \<Rightarrow> string \<Rightarrow> string \<Rightarrow> string list \<Rightarrow> string list \<Rightarrow> tool_entry" where
  "entry cs msg f ps rs =
     \<lparr> checked = cs, missing_msg = msg, fname = f, params = ps, required = rs \<rparr>"

definition TOOL_BRANCHES :: "(string \<times> tool_entry) list" where
  "TOOL_BRANCHES =
   [(''read_file'', entry [''path''] ''missing required parameter: path''
        ''tool_read_file'' [''path''] [''path'']),
    (''write_file'', entry [''path'', ''content''] ''missing required parameters: path, content''
        ''tool_write_file'' [''path'', ''content''] [''path'', ''content'']),
    (''run_safe'', entry [''cmd''] ''missing required parameter: cmd''
        ''tool_run_safe'' [''cmd''] [''cmd'']),
    (''restart_service'', entry [''name''] ''missing required parameter: name''
        ''tool_restart_service'' [''name'', ''action''] [''name'']),
    (''verify_regex'', entry [''path'', ''regex''] ''missing required parameters: path, regex''
        ''tool_verify_regex'' [''path'', ''regex''] [''path'', ''regex'']),
    (''set_config_kv'', entry [''path'', ''key'', ''value'']
        ''missing required parameters: path, key, value''
        ''tool_set_config_kv'' [''path'', ''key'', ''value''] [''path'', ''key'', ''value'']),
    (''install_package'', entry [''package''] ''missing required parameter: package''
        ''tool_install_package'' [''package''] [''package'']),
    (''remove_package'', entry [''package''] ''missing required parameter: package''
        ''tool_remove_package'' [''package''] [''package'']),
    (''update_system'', entry [] [] ''tool_update_system'' [] []),
    (''list_packages'', entry [] [] ''tool_list_packages'' [''pattern''] []),
    (''search_packages'', entry [''query''] ''missing required parameter: query''
        ''tool_search_packages'' [''query''] [''query'']),
    (''check_service_status'', entry [''name''] ''missing required parameter: name''
        ''tool_check_service_status'' [''name''] [''name'']),
    (''list_services'', entry [] [] ''tool_list_services'' [''pattern''] []),
    (''create_directory'', entry [''path''] ''missing required parameter: path''
        ''tool_create_directory'' [''path'', ''mode''] [''path'']),
    (''change_permissions'', entry [''path'', ''mode''] ''missing required parameters: path, mode''
        ''tool_change_permissions'' [''path'', ''mode''] [''path'', ''mode'']),
    (''change_ownership'', entry [''path'', ''user''] ''missing required parameters: path, user''
        ''tool_change_ownership'' [''path'', ''user'', ''group''] [''path'', ''user''])]"

text \<open>
  The call \<open>tool_x(**normalized_args)\<close>: Python raises \<open>TypeError\<close> for a keyword that is
  not a parameter of the function, and for a parameter without default that is not given.
\<close>

fun quoted_list :: "string list \<Rightarrow> string" where
  "quoted_list [] = []"
| "quoted_list [a] = [CHR 0x27] @ a @ [CHR 0x27]"
| "quoted_list [a, b] = [CHR 0x27] @ a @ [CHR 0x27] @ '' and '' @ [CHR 0x27] @ b @ [CHR 0x27]"
| "quoted_list (a # b # c # ds) =
     [CHR 0x27] @ a @ [CHR 0x27] @ '', '' @
     (if ds = [] then [CHR 0x27] @ b @ [CHR 0x27] @ '', and '' @ [CHR 0x27] @ c @ [CHR 0x27]
      else quoted_list (b # c # ds))"

definition bind_kwargs :: "tool_entry \<Rightarrow> pydict \<Rightarrow> py_exn + pydict" where
  "bind_kwargs t kwargs =
     (case filter (\<lambda>k. k \<notin> set (params t)) (map fst kwargs) of
        k # ks \<Rightarrow>
          Inl (PyException (fname t @ ''() got an unexpected keyword argument '' @
                            [CHR 0x27] @ k @ [CHR 0x27]))
      | [] \<Rightarrow>
          (case filter (\<lambda>p. \<not> has_key kwargs p) (required t) of
             [] \<Rightarrow> Inr kwargs
           | ms \<Rightarrow>
               Inl (PyException (fname t @ ''() missing '' @ str_nat (length ms) @
                      '' required positional argument'' @ (if length ms = 1 then [] else ''s'') @
                      '': '' @ quoted_list ms))))"

text \<open>
  The tool functions themselves act on the remote machine; \<open>tools f kwargs\<close> is what the
  function named \<open>f\<close> does when called with the keyword arguments \<open>kwargs\<close>: it returns a
  dict or raises.
\<close>

type_synonym tool_impl = "string \<Rightarrow> pydict \<Rightarrow> py_exn + pydict"

text \<open>The body of the \<open>try\<close> block, and \<open>dispatch_tool\<close> with its \<open>except Exception\<close>.\<close>

definition dispatch_body :: "tool_impl \<Rightarrow> string \<Rightarrow> pydict \<Rightarrow> py_exn + pydict" where
  "dispatch_body tools name args =
    (case normalize_args name args of
       Inl e \<Rightarrow> Inl e
     | Inr normalized_args \<Rightarrow>
         (case map_of TOOL_BRANCHES name of
            None \<Rightarrow> Inr [(''ok'', JBool False), (''stderr'', JStr (''unknown tool '' @ name))]
          | Some t \<Rightarrow>
              if list_ex (\<lambda>p. \<not> has_key normalized_args p) (checked t)
              then Inr [(''ok'', JBool False), (''stderr'', JStr (missing_msg t))]
              else (case bind_kwargs t normalized_args of
                      Inl e \<Rightarrow> Inl e
                    | Inr kwargs \<Rightarrow> tools (fname t) kwargs)))"

definition dispatch_tool :: "tool_impl \<Rightarrow> string \<Rightarrow> pydict \<Rightarrow> pydict" where
  "dispatch_tool tools name args =
    (case dispatch_body tools name args of
       Inl e \<Rightarrow> [(''ok'', JBool False), (''stderr'', JStr (''tool execution error: '' @ str_exn e))]
     | Inr result \<Rightarrow> result)"

text \<open>
  The \<open>required\<close> lists of the tool schemas \<open>TOOLS_FOR_CHAT\<close>, by tool name.
\<close>

definition TOOLS_REQUIRED :: "(string \<times> string list) list" where
  "TOOLS_REQUIRED =
   [(''read_file'', [''path'']),
    (''write_file'', [''path'', ''content'']),
    (''run_safe'', [''cmd'']),
    (''restart_service'', [''name'']),
    (''verify_regex'', [''path'', ''regex'']),
    (''set_config_kv'', [''path'', ''key'', ''value'']),
    (''install_package'', [''package'']),
    (''remove_package'', [''package'']),
    (''update_system'', []),
    (''list_packages'', []),
    (''search_packages'', [''query'']),
    (''check_service_status'', [''name'']),
    (''list_services'', []),
    (''create_directory'', [''path'']),
    (''change_permissions'', [''path'', ''mode'']),
    (''change_ownership'', [''path'', ''user''])]"

text \<open>
  Tool implementations for the examples below.  \<open>call_run_safe ex log\<close> is the function
  \<open>tool_run_safe\<close> as modelled above, called with keyword arguments while the executor
  \<open>ex\<close> has been given the commands \<open>log\<close>; an argument \<open>cmd\<close> that is not a string
  has no \<open>split\<close>.  \<open>tools_with_run_safe ex log rest\<close> is this function together with
  \<open>rest\<close> for the other tool functions.  \<open>exhausted_executor\<close> is the SSH backend when
  the connection pool of the endpoint is exhausted: \<open>get_connection\<close> raises, and nothing
  between it and \<open>tool_run_safe\<close> catches the exception.  \<open>ok_tools\<close> stands for the
  tool functions in examples that do not call them.
\<close>

definition call_run_safe :: "executor \<Rightarrow> string list \<Rightarrow> pydict \<Rightarrow> py_exn + pydict" where
  "call_run_safe ex log kwargs =
     (case map_of kwargs ''cmd'' of
        Some (JStr cmd) \<Rightarrow> fst (tool_run_safe ex cmd log)
      | Some v \<Rightarrow>
          Inl (PyException ([CHR 0x27] @ type_name v @ [CHR 0x27] @ '' object has no attribute '' @
                            [CHR 0x27] @ ''split'' @ [CHR 0x27]))
      | None \<Rightarrow>
          Inl (PyException (''tool_run_safe() missing 1 required positional argument: '' @
                            [CHR 0x27] @ ''cmd'' @ [CHR 0x27])))"

definition tools_with_run_safe :: "executor \<Rightarrow> string list \<Rightarrow> tool_impl \<Rightarrow> tool_impl" where
  "tools_with_run_safe ex log rest f kwargs =
     (if f = ''tool_run_safe'' then call_run_safe ex log kwargs else rest f kwargs)"

definition exhausted_executor :: executor where
  "exhausted_executor log cmd =
     Inl (PyException ''Connection pool exhausted for root@10.0.0.5:22. Max connections: 5'')"

definition ok_tools :: tool_impl where
  "ok_tools f kwargs = Inr [(''ok'', JBool True)]"

section \<open>The SSH connection pool (ssh_client.py)\<close>

text \<open>
  \<open>SSHConfig\<close>: the fields that decide the pool key.  An \<open>SSHClient\<close> object is
  represented by its identity, a number.
\<close>

record SSHConfig =
  host :: string
  port :: int
  username :: string

type_synonym session = nat

datatype pool_error =
    PoolExhausted string nat
  | ConnectFailed string

text \<open>
  \<open>SSHConnectionPool\<close>: \<open>_pools\<close> and \<open>_active_connections\<close> are \<open>defaultdict\<close>s, hence total
  functions with the defaults \<open>[]\<close> and \<open>0\<close>; \<open>_configs\<close> is a plain dict.  The active
  counter starts at 0, is incremented, and is decremented as \<open>max(0, n - 1)\<close>, which is
  the truncated subtraction of \<open>nat\<close>.
\<close>

record SSHConnectionPool =
  max_connections_per_host :: nat
  pools :: "string \<Rightarrow> session list"
  active_connections :: "string \<Rightarrow> nat"
  configs :: "string \<rightharpoonup> SSHConfig"

definition new_pool :: "nat \<Rightarrow> SSHConnectionPool" where
  "new_pool m = \<lparr> max_connections_per_host = m, pools = (\<lambda>_. []),
                  active_connections = (\<lambda>_. 0), configs = Map.empty \<rparr>"

definition get_pool_key :: "SSHConfig \<Rightarrow> string" where
  "get_pool_key c = username c @ ''@'' @ host c @ '':'' @ str_int (port c)"

text \<open>
  The reuse loop of \<open>get_connection\<close>: \<open>while self._pools[pool_key]: conn = pop()\<close> takes
  sessions from the end of the idle list; the first one that \<open>_is_connection_alive\<close>
  accepts is returned, the dead ones are closed and dropped.  The liveness probe is an
  answer of the environment, given as the function \<open>alive\<close>.  The function works on the
  reversed idle list and returns what is left of it.
\<close>

fun pop_live :: "(session \<Rightarrow> bool) \<Rightarrow> session list \<Rightarrow> session option \<times> session list" where
  "pop_live alive [] = (None, [])"
| "pop_live alive (c # cs) = (if alive c then (Some c, cs) else pop_live alive cs)"

text \<open>
  \<open>get_connection\<close>.  \<open>created\<close> is what \<open>_create_connection\<close> does when it is called:
  a new session, or the exception it raises.
\<close>

definition get_connection ::
  "(session \<Rightarrow> bool) \<Rightarrow> pool_error + session \<Rightarrow> SSHConfig \<Rightarrow> SSHConnectionPool
     \<Rightarrow> (pool_error + session) \<times> SSHConnectionPool" where
  "get_connection alive created config p =
    (let pool_key = get_pool_key config;
         p1 = (if pool_key \<in> dom (configs p) then p
               else p\<lparr>configs := (configs p)(pool_key \<mapsto> config)\<rparr>);
         (found, rest) = pop_live alive (rev (pools p1 pool_key));
         p2 = p1\<lparr>pools := (pools p1)(pool_key := rev rest)\<rparr>
     in case found of
          Some conn \<Rightarrow>
            (Inr conn, p2\<lparr>active_connections :=
                (active_connections p2)(pool_key := active_connections p2 pool_key + 1)\<rparr>)
        | None \<Rightarrow>
            if active_connections p2 pool_key < max_connections_per_host p2 then
              (case created of
                 Inl e \<Rightarrow> (Inl e, p2)
               | Inr conn \<Rightarrow>
                   (Inr conn, p2\<lparr>active_connections :=
                      (active_connections p2)(pool_key := active_connections p2 pool_key + 1)\<rparr>))
            else (Inl (PoolExhausted pool_key (max_connections_per_host p2)), p2))"

text \<open>
  \<open>return_connection\<close>: a live session is appended to the idle list, a dead one is
  closed; the active counter goes down, not below 0.  \<open>conn_alive\<close> is the answer of the
  liveness probe for \<open>conn\<close>.
\<close>

definition return_connection ::
  "bool \<Rightarrow> SSHConfig \<Rightarrow> session \<Rightarrow> SSHConnectionPool \<Rightarrow> SSHConnectionPool" where
  "return_connection conn_alive config conn p =
    (let pool_key = get_pool_key config;
         p1 = (if conn_alive then p\<lparr>pools := (pools p)(pool_key := pools p pool_key @ [conn])\<rparr>
               else p)
     in p1\<lparr>active_connections :=
           (active_connections p1)(pool_key := active_connections p1 pool_key - 1)\<rparr>)"

text \<open>A sequence of pool operations, each with the answers the environment gives it.\<close>

datatype pool_op =
    Acquire SSHConfig "session \<Rightarrow> bool" "pool_error + session"
  | Release SSHConfig session bool

fun pool_step :: "SSHConnectionPool \<Rightarrow> pool_op \<Rightarrow> SSHConnectionPool" where
  "pool_step p (Acquire c alive created) = snd (get_connection alive created c p)"
| "pool_step p (Release c conn conn_alive) = return_connection conn_alive c conn p"

fun pool_run :: "SSHConnectionPool \<Rightarrow> pool_op list \<Rightarrow> SSHConnectionPool" where
  "pool_run p [] = p"
| "pool_run p (e # es) = pool_run (pool_step p e) es"

text \<open>The results of the acquires of a sequence, in order.\<close>

fun acquire_results :: "SSHConnectionPool \<Rightarrow> pool_op list \<Rightarrow> (pool_error + session) list" where
  "acquire_results p [] = []"
| "acquire_results p (Acquire c alive created # es) =
     fst (get_connection alive created c p) # acquire_results (pool_step p (Acquire c alive created)) es"
| "acquire_results p (Release c conn conn_alive # es) =
     acquire_results (pool_step p (Release c conn conn_alive)) es"

text \<open>The pool invariant of one endpoint: idle + active is at most the bound.\<close>

definition pool_inv :: "SSHConnectionPool \<Rightarrow> string \<Rightarrow> bool" where
  "pool_inv p k \<longleftrightarrow> length (pools p k) + active_connections p k \<le> max_connections_per_host p"

text \<open>
  The sessions that are checked out: a successful acquire adds its session under the
  pool key, a release removes one occurrence.  A sequence is \<open>paired\<close> when every release
  gives back a session that is checked out for that key at that moment.
\<close>

fun checked_out_step ::
  "SSHConnectionPool \<Rightarrow> (string \<times> session) list \<Rightarrow> pool_op \<Rightarrow> (string \<times> session) list" where
  "checked_out_step p out (Acquire c alive created) =
     (case fst (get_connection alive created c p) of
        Inl e \<Rightarrow> out
      | Inr conn \<Rightarrow> (get_pool_key c, conn) # out)"
| "checked_out_step p out (Release c conn conn_alive) = remove1 (get_pool_key c, conn) out"

fun paired :: "SSHConnectionPool \<Rightarrow> (string \<times> session) list \<Rightarrow> pool_op list \<Rightarrow> bool" where
  "paired p out [] = True"
| "paired p out (Acquire c alive created # es) =
     paired (pool_step p (Acquire c alive created))
            (checked_out_step p out (Acquire c alive created)) es"
| "paired p out (Release c conn conn_alive # es) =
     ((get_pool_key c, conn) \<in> set out \<and>
      paired (pool_step p (Release c conn conn_alive))
             (checked_out_step p out (Release c conn conn_alive)) es)"

definition checked_out_count :: "(string \<times> session) list \<Rightarrow> string \<Rightarrow> nat" where
  "checked_out_count out k = length (filter (\<lambda>e. fst e = k) out)"

text \<open>Concrete inputs used in the examples below.\<close>

definition always_alive :: "session \<Rightarrow> bool" where
  "always_alive s = True"

definition never_alive :: "session \<Rightarrow> bool" where
  "never_alive s = False"

definition example_config :: SSHConfig where
  "example_config = \<lparr> host = ''10.0.0.5'', port = 22, username = ''root'' \<rparr>"

section \<open>The orchestration loop (multi_agent.py)\<close>

text \<open>
  One attempt record and the dict that \<open>multi_agent_system\<close> returns.  Plans and execution
  transcripts are opaque here; a verification is the dict the verifier returns.
\<close>

record ('p, 'e) attempt =
  attempt_number :: int
  plan :: 'p
  execution :: 'e
  verification :: pydict

record ('p, 'e) mas_result =
  r_goal :: string
  r_success :: bool
  r_attempts :: "('p, 'e) attempt list"
  r_final_attempt :: int
  r_plan :: 'p
  r_execution :: 'e
  r_verification :: pydict

text \<open>
  The three agents consult the external decision-maker and act on the remote machine.
  They are given as functions on a state \<open>'w\<close> of the outside world, which each call may
  change.  \<open>set_allow_insecure\<close> is the assignment to \<open>config.ALLOW_INSECURE\<close>;
  \<open>ensure_up\<close> returns \<open>None\<close> when it ends the process (\<open>sys.exit\<close>).
\<close>

record ('p, 'e, 'w) agents =
  set_allow_insecure :: "bool \<Rightarrow> 'w \<Rightarrow> 'w"
  ensure_up :: "'w \<Rightarrow> 'w option"
  planner_agent :: "string \<Rightarrow> ('p, 'e) attempt option \<Rightarrow> 'w \<Rightarrow> 'p \<times> 'w"
  executor_agent :: "'p \<Rightarrow> 'w \<Rightarrow> 'e \<times> 'w"
  verifier_agent :: "string \<Rightarrow> 'e \<Rightarrow> 'w \<Rightarrow> pydict \<times> 'w"

text \<open>\<open>verification.get('success', False)\<close>, used as a condition.\<close>

definition verified :: "pydict \<Rightarrow> bool" where
  "verified v = (case map_of v ''success'' of Some x \<Rightarrow> truthy x | None \<Rightarrow> False)"

text \<open>The body of the loop up to the attempt record: plan, execute, verify.\<close>

definition run_attempt ::
  "('p, 'e, 'w) agents \<Rightarrow> string \<Rightarrow> int \<Rightarrow> ('p, 'e) attempt option \<Rightarrow> 'w \<Rightarrow> ('p, 'e) attempt \<times> 'w" where
  "run_attempt ag goal attempt_num previous_attempt w =
    (let (p, w1) = planner_agent ag goal previous_attempt w;
         (e, w2) = executor_agent ag p w1;
         (v, w3) = verifier_agent ag goal e w2
     in (\<lparr> attempt_number = attempt_num, plan = p, execution = e, verification = v \<rparr>, w3))"

text \<open>
  \<open>for attempt_num in range(1, max_retries + 1)\<close>, as a recursion over the attempt numbers
  still to come.  The first component of the result is the dict returned from inside the
  loop, if any.
\<close>

fun attempts_loop ::
  "('p, 'e, 'w) agents \<Rightarrow> string \<Rightarrow> int \<Rightarrow> int list \<Rightarrow> ('p, 'e) attempt list \<Rightarrow>
     ('p, 'e) attempt option \<Rightarrow> 'w \<Rightarrow> ('p, 'e) mas_result option \<times> ('p, 'e) attempt list \<times> 'w" where
  "attempts_loop ag goal max_retries [] attempts previous_attempt w = (None, attempts, w)"
| "attempts_loop ag goal max_retries (attempt_num # rest) attempts previous_attempt w =
    (let (a, w') = run_attempt ag goal attempt_num previous_attempt w;
         attempts' = attempts @ [a]
     in if verified (verification a)
        then (Some \<lparr> r_goal = goal, r_success = True, r_attempts = attempts',
                     r_final_attempt = attempt_num, r_plan = plan a,
                     r_execution = execution a, r_verification = verification a \<rparr>,
              attempts', w')
        else attempts_loop ag goal max_retries rest attempts'
               (if attempt_num < max_retries then Some a else previous_attempt) w')"

text \<open>
  \<open>multi_agent_system\<close>.  The result is \<open>None\<close> when \<open>ensure_up\<close> ends the process;
  \<open>attempts[-1]\<close> raises \<open>IndexError\<close> when no attempt was made.
\<close>

definition multi_agent_system ::
  "('p, 'e, 'w) agents \<Rightarrow> string \<Rightarrow> bool \<Rightarrow> int \<Rightarrow> 'w \<Rightarrow>
     ((py_exn + ('p, 'e) mas_result) \<times> 'w) option" where
  "multi_agent_system ag goal allow_insecure max_retries w =
    (case ensure_up ag (set_allow_insecure ag allow_insecure w) of
       None \<Rightarrow> None
     | Some w0 \<Rightarrow>
         (case attempts_loop ag goal max_retries [1..max_retries] [] None w0 of
            (Some r, attempts, w') \<Rightarrow> Some (Inr r, w')
          | (None, attempts, w') \<Rightarrow>
              if attempts = [] then Some (Inl (PyException ''list index out of range''), w')
              else Some (Inr \<lparr> r_goal = goal, r_success = False, r_attempts = attempts,
                               r_final_attempt = max_retries, r_plan = plan (last attempts),
                               r_execution = execution (last attempts),
                               r_verification = verification (last attempts) \<rparr>, w')))"

text \<open>
  The attempts as they follow one another when none of them ends the loop:
  \<open>attempt_seq ag goal n prev w i\<close> is the attempt with number \<open>n + i\<close> (and the state after
  it) when the attempts \<open>n\<close>, \<open>n + 1\<close>, ... are made from the state \<open>w\<close>, the first one planned
  from \<open>prev\<close> and each later one from its predecessor.
\<close>

fun attempt_seq ::
  "('p, 'e, 'w) agents \<Rightarrow> string \<Rightarrow> int \<Rightarrow> ('p, 'e) attempt option \<Rightarrow> 'w \<Rightarrow> nat \<Rightarrow>
     ('p, 'e) attempt \<times> 'w" where
  "attempt_seq ag goal n prev w 0 = run_attempt ag goal n prev w"
| "attempt_seq ag goal n prev w (Suc i) =
     (let (a, w') = run_attempt ag goal n prev w in attempt_seq ag goal (n + 1) (Some a) w' i)"

text \<open>
  A stub of the decision-maker for the examples: the state counts the verifications made;
  the plan is the number of the previous attempt (0 when there is none), the execution is
  the plan, and the verification succeeds when the counter reaches \<open>k\<close>.
\<close>

definition stub_agents :: "nat \<Rightarrow> (int, int, nat) agents" where
  "stub_agents k =
     \<lparr> set_allow_insecure = (\<lambda>b w. w),
       ensure_up = (\<lambda>w. Some w),
       planner_agent = (\<lambda>goal prev w. (case prev of None \<Rightarrow> 0 | Some a \<Rightarrow> attempt_number a, w)),
       executor_agent = (\<lambda>p w. (p, w)),
       verifier_agent = (\<lambda>goal e w. ([(''success'', JBool (Suc w = k))], Suc w)) \<rparr>"

text \<open>
  \<open>nth_attempt ag goal w0 i\<close>: attempt number \<open>i\<close> (1, 2, ...) of a run that starts in the
  state \<open>w0\<close>.
\<close>

definition nth_attempt :: "('p, 'e, 'w) agents \<Rightarrow> string \<Rightarrow> 'w \<Rightarrow> nat \<Rightarrow> ('p, 'e) attempt" where
  "nth_attempt ag goal w0 i = fst (attempt_seq ag goal 1 None w0 (i - 1))"

section \<open>Properties\<close>

subsection \<open>Configuration lines\<close>

lemma endswith_append: "endswith (xs @ ys) ys"
  by (simp add: endswith_def)

lemma endswith_single: "endswith s [c] \<longleftrightarrow> s \<noteq> [] \<and> last s = c"
proof (cases s rule: rev_cases)
  case Nil
  then show ?thesis by (simp add: endswith_def)
next
  case (snoc xs x)
  then show ?thesis by (simp add: endswith_def)
qed

lemma endswith_double: "endswith s [c, c] \<longleftrightarrow> (\<exists>t. s = t @ [c, c])"
proof
  assume "endswith s [c, c]"
  then have d: "drop (length s - 2) s = [c, c]"
    by (simp add: endswith_def numeral_2_eq_2)
  have "s = take (length s - 2) s @ drop (length s - 2) s" by simp
  then have "s = take (length s - 2) s @ [c, c]" using d by simp
  then show "\<exists>t. s = t @ [c, c]" by (rule exI)
next
  assume "\<exists>t. s = t @ [c, c]"
  then show "endswith s [c, c]" by (auto simp: endswith_def)
qed

lemma replace_lines_eq:
  "replace_lines pat kv ls found out =
     (found \<or> list_ex pat ls, out @ map (\<lambda>l. if pat l then kv else l) ls)"
  by (induction ls arbitrary: found out) simp_all

lemma join_last: "xs \<noteq> [] \<Longrightarrow> \<exists>pre. join sep xs = pre @ last xs"
proof (induction sep xs rule: join.induct)
  case (1 sep)
  then show ?case by simp
next
  case (2 sep x)
  then show ?case by simp
next
  case (3 sep x y ys)
  then obtain pre where "join sep (y # ys) = pre @ last (y # ys)" by auto
  then have "join sep (x # y # ys) = (x @ sep @ pre) @ last (x # y # ys)" by simp
  then show ?case by blast
qed

lemma splitlines_from_no_break:
  "\<forall>c \<in> set cur. \<not> is_linebreak c \<Longrightarrow>
   \<forall>l \<in> set (splitlines_from cur s). \<forall>c \<in> set l. \<not> is_linebreak c"
proof (induction cur s rule: splitlines_from.induct)
  case (1 cur)
  then show ?case by simp
next
  case (2 cur c)
  then show ?case by simp
next
  case (3 cur c d cs)
  show ?case
  proof (cases "code c = 13 \<and> code d = 10")
    case True
    have "\<forall>l\<in>set (splitlines_from [] cs). \<forall>c\<in>set l. \<not> is_linebreak c"
      using "3.IH"(1) [OF True] by simp
    then show ?thesis using True "3.prems" by simp
  next
    case False
    note nf = False
    show ?thesis
    proof (cases "is_linebreak c")
      case True
      have "\<forall>l\<in>set (splitlines_from [] (d # cs)). \<forall>c\<in>set l. \<not> is_linebreak c"
        using "3.IH"(2) [OF nf True] by simp
      then show ?thesis using True nf "3.prems" by auto
    next
      case False
      have "\<forall>l\<in>set (splitlines_from (cur @ [c]) (d # cs)). \<forall>c\<in>set l. \<not> is_linebreak c"
        using "3.IH"(3) [OF nf False] False "3.prems" by simp
      then show ?thesis using False nf by auto
    qed
  qed
qed

lemma splitlines_no_break: "l \<in> set (splitlines s) \<Longrightarrow> c \<in> set l \<Longrightarrow> \<not> is_linebreak c"
  using splitlines_from_no_break [of "[]" s] by (auto simp: splitlines_def)

lemma is_linebreak_newline: "is_linebreak CHR ''\<newline>''"
  by (simp add: is_linebreak_def in_range_def code_def)

lemma set_config_line_eq:
  "set_config_line current key value =
     (join ''\<newline>'' (config_out current key value) @
        (if endswith (last (config_out current key value)) ''\<newline>'' then [] else ''\<newline>''),
      join ''\<newline>'' (config_out current key value) @
        (if endswith (last (config_out current key value)) ''\<newline>'' then [] else ''\<newline>'')
      \<noteq> newline_normalized current)"
  unfolding set_config_line_def Let_def replace_lines_eq config_out_def out_lines_def
    newline_normalized_def prod.case
  by (auto simp: list_ex_iff)

lemma out_lines_nonempty: "config_out current key value \<noteq> []"
  by (auto simp: config_out_def out_lines_def list_ex_iff)

lemma last_out_lines:
  "last (config_out current key value) = key @ '' '' @ value \<or>
   (splitlines current \<noteq> [] \<and> last (config_out current key value) = last (splitlines current))"
  by (cases "splitlines current" rule: rev_cases) (auto simp: config_out_def out_lines_def list_ex_iff)

text \<open>
  Claim C2 fails on the code, which its docstring calls idempotent: the pattern ends in
  \<open>\b\<close>, so a key that ends in a character that is not a word character never matches
  its own canonical line.  For the document \<open>port: 80\<close>, the key \<open>port:\<close> and the value
  \<open>22\<close>, the first application appends a line and reports a change, and the second
  application appends the line again and reports a change again.
\<close>

theorem set_config_line_not_idempotent:
  "set_config_line ''port: 80\<newline>'' ''port:'' ''22'' = (''port: 80\<newline>port: 22\<newline>'', True) \<and>
   set_config_line ''port: 80\<newline>port: 22\<newline>'' ''port:'' ''22'' =
     (''port: 80\<newline>port: 22\<newline>port: 22\<newline>'', True)"
  by code_simp

text \<open>
  Where the second application does leave the content alone: the canonical line matches
  the key pattern when the key ends in a word character, and a content without line breaks
  inside its lines is split into the lines it was joined from.
\<close>

lemma star_close_seen: "set seen \<subseteq> set (star_close step n frontier seen)"
proof (induction n arbitrary: frontier seen)
  case 0
  then show ?case by simp
next
  case (Suc n)
  show ?case
  proof (cases "filter (\<lambda>j. j \<notin> set seen) (remdups (concat (map step frontier))) = []")
    case True
    then show ?thesis by (simp add: Let_def)
  next
    case False
    let ?new = "filter (\<lambda>j. j \<notin> set seen) (remdups (concat (map step frontier)))"
    have "set (seen @ ?new) \<subseteq> set (star_close step n ?new (seen @ ?new))"
      by (rule Suc.IH)
    then show ?thesis using False by (simp add: Let_def)
  qed
qed

lemma rx_ends_Star_self: "i \<in> set (rx_ends f s (Star a) i)"
  using star_close_seen [of "[i]" "rx_ends f s a" "Suc (length s)" "[i]"] by simp

lemma rx_ends_Opt_self: "i \<in> set (rx_ends f s (Opt a) i)"
  by simp

lemma rx_ends_Seq:
  "j \<in> set (rx_ends f s a i) \<Longrightarrow> k \<in> set (rx_ends f s b j) \<Longrightarrow>
   k \<in> set (rx_ends f s (Seq a b) i)"
  by auto

lemma char_match_refl: "char_match f c c"
  by (simp add: char_match_def)

lemma rx_ends_Str_prefix: "length w \<in> set (rx_ends f (w @ t) (Str w) 0)"
  by (simp add: list_all2_same char_match_refl)

lemma not_word_space: "\<not> is_word CHR '' ''"
  by (simp add: is_word_def in_range_def code_def)

lemma not_linebreak_space: "\<not> is_linebreak CHR '' ''"
  by (simp add: is_linebreak_def in_range_def code_def)

lemma wordb_after_key:
  assumes "key \<noteq> []" and "is_word (last key)"
  shows "at_wordb (key @ '' '' @ value) (length key)"
proof -
  have "(key @ '' '' @ value) ! (length key - 1) = last key"
    using assms(1) by (simp add: nth_append last_conv_nth)
  moreover have "(key @ '' '' @ value) ! (length key) = CHR '' ''"
    by (simp add: nth_append)
  ultimately show ?thesis
    using assms by (simp add: at_wordb_def not_word_space)
qed

lemma key_pattern_matches_canonical:
  assumes "key \<noteq> []" and "is_word (last key)"
  shows "re_match flag_I (key_pattern key) (key @ '' '' @ value)"
proof -
  let ?s = "key @ '' '' @ value"
  let ?f = flag_I
  have e: "length key \<in> set (rx_ends ?f ?s (Seq Wordb Eps) (length key))"
    using wordb_after_key [OF assms] by simp
  have k: "length key \<in> set (rx_ends ?f ?s (Str key) 0)"
    by (rule rx_ends_Str_prefix)
  have 1: "length key \<in> set (rx_ends ?f ?s (Seq (Str key) (Seq Wordb Eps)) 0)"
    by (rule rx_ends_Seq [OF k e])
  have 2: "length key \<in> set (rx_ends ?f ?s (Seq (Star Space) (Seq (Str key) (Seq Wordb Eps))) 0)"
    by (rule rx_ends_Seq [OF rx_ends_Star_self 1])
  have 3: "length key \<in> set (rx_ends ?f ?s
              (Seq (Opt (Chr CHR ''#'')) (Seq (Star Space) (Seq (Str key) (Seq Wordb Eps)))) 0)"
    by (rule rx_ends_Seq [OF rx_ends_Opt_self 2])
  have 4: "length key \<in> set (rx_ends ?f ?s
              (Seq (Star Space) (Seq (Opt (Chr CHR ''#''))
                 (Seq (Star Space) (Seq (Str key) (Seq Wordb Eps))))) 0)"
    by (rule rx_ends_Seq [OF rx_ends_Star_self 3])
  have b: "0 \<in> set (rx_ends ?f ?s Bol 0)"
    by (simp add: at_bol_def)
  have kp: "key_pattern key =
      Seq Bol (Seq (Star Space) (Seq (Opt (Chr CHR ''#''))
        (Seq (Star Space) (Seq (Str key) (Seq Wordb Eps)))))"
    by (simp add: key_pattern_def cat_def)
  have 5: "length key \<in> set (rx_ends ?f ?s (key_pattern key) 0)"
    unfolding kp by (rule rx_ends_Seq [OF b 4])
  then show ?thesis unfolding re_match_def by auto
qed

lemma splitlines_from_plain:
  "\<not> is_linebreak c \<Longrightarrow> splitlines_from cur (c # cs) = splitlines_from (cur @ [c]) cs"
  by (cases cs) (auto simp: is_linebreak_def in_range_def)

lemma splitlines_from_newline:
  "splitlines_from cur (CHR ''\<newline>'' # cs) = cur # splitlines_from [] cs"
  by (cases cs) (auto simp: is_linebreak_def in_range_def code_def)

lemma splitlines_from_line:
  "\<forall>c \<in> set l. \<not> is_linebreak c \<Longrightarrow>
   splitlines_from cur (l @ rest) = splitlines_from (cur @ l) rest"
  by (induction l arbitrary: cur) (simp_all add: splitlines_from_plain)

lemma splitlines_join:
  assumes "ls \<noteq> []" and "\<forall>l \<in> set ls. \<forall>c \<in> set l. \<not> is_linebreak c"
  shows "splitlines (join ''\<newline>'' ls @ ''\<newline>'') = ls"
  using assms
proof (induction "''\<newline>''" ls rule: join.induct)
  case 1
  then show ?case by simp
next
  case (2 x)
  then have "splitlines_from [] (x @ ''\<newline>'') = splitlines_from x ''\<newline>''"
    using splitlines_from_line [of x "[]" "''\<newline>''"] by simp
  then show ?case by (simp add: splitlines_def is_linebreak_newline)
next
  case (3 x y ys)
  have x: "\<forall>c \<in> set x. \<not> is_linebreak c" using "3.prems" by simp
  have "splitlines_from [] (x @ ''\<newline>'' @ join ''\<newline>'' (y # ys) @ ''\<newline>'') =
        splitlines_from x (''\<newline>'' @ join ''\<newline>'' (y # ys) @ ''\<newline>'')"
    using splitlines_from_line [OF x, of "[]"] by simp
  also have "\<dots> = x # splitlines_from [] (join ''\<newline>'' (y # ys) @ ''\<newline>'')"
    by (simp add: splitlines_from_newline)
  also have "\<dots> = x # y # ys"
    using "3.hyps" "3.prems" by (simp add: splitlines_def)
  finally show ?case by (simp add: splitlines_def)
qed

lemma endswith_newline_normalized: "endswith s ''\<newline>'' \<Longrightarrow> newline_normalized s = s"
  by (simp add: newline_normalized_def)

text \<open>
  For a key that ends in a word character, with no line break in key or value, the second
  application of \<open>set_config_line\<close> returns the content unchanged and reports no change.
\<close>

lemma set_config_line_idempotent_word_key:
  assumes key: "key \<noteq> []" "is_word (last key)"
    and kb: "\<forall>c \<in> set key. \<not> is_linebreak c"
    and vb: "\<forall>c \<in> set value. \<not> is_linebreak c"
  shows "set_config_line (fst (set_config_line current key value)) key value =
           (fst (set_config_line current key value), False)"
proof -
  define P where "P = re_match flag_I (key_pattern key)"
  define kv where "kv = key @ '' '' @ value"
  let ?out = "config_out current key value"
  let ?new = "fst (set_config_line current key value)"
  have co: "config_out doc key value = out_lines P kv (splitlines doc)" for doc
    by (simp add: config_out_def P_def kv_def)
  have Pkv: "P kv" unfolding P_def kv_def by (rule key_pattern_matches_canonical [OF key])
  have kvb: "\<forall>c \<in> set kv. \<not> is_linebreak c"
    using kb vb not_linebreak_space by (auto simp: kv_def)
  have outb: "\<forall>l \<in> set ?out. \<forall>c \<in> set l. \<not> is_linebreak c"
    using kvb splitlines_no_break
    by (auto simp: co out_lines_def split: if_splits)
  have ne: "?out \<noteq> []" by (rule out_lines_nonempty)
  have "\<not> endswith (last ?out) ''\<newline>''"
  proof
    assume "endswith (last ?out) ''\<newline>''"
    then have "last ?out \<noteq> []" and "last (last ?out) = CHR ''\<newline>''"
      by (simp_all add: endswith_single)
    then have "CHR ''\<newline>'' \<in> set (last ?out)" by (metis last_in_set)
    moreover have "last ?out \<in> set ?out" using ne by simp
    ultimately show False using outb is_linebreak_newline by blast
  qed
  then have new: "?new = join ''\<newline>'' ?out @ ''\<newline>''"
    by (simp add: set_config_line_eq)
  have sl: "splitlines ?new = ?out"
    unfolding new by (rule splitlines_join [OF ne outb])
  have mem: "kv \<in> set ?out"
    by (auto simp: co out_lines_def list_ex_iff)
  have fixed: "\<forall>l \<in> set ?out. P l \<longrightarrow> l = kv"
    by (auto simp: co out_lines_def list_ex_iff split: if_splits)
  have "map (\<lambda>l. if P l then kv else l) ?out = ?out"
    using fixed by (simp add: map_idI)
  moreover have "list_ex P ?out" using mem Pkv by (auto simp: list_ex_iff)
  ultimately have "out_lines P kv ?out = ?out"
    by (simp add: out_lines_def)
  then have out2: "config_out ?new key value = ?out"
    by (simp only: co [of ?new] sl)
  have ends: "endswith ?new ''\<newline>''" unfolding new by (rule endswith_append)
  have "fst (set_config_line ?new key value) = ?new"
    using out2 new by (simp add: set_config_line_eq)
  moreover have "\<not> snd (set_config_line ?new key value)"
    using out2 new endswith_newline_normalized [OF ends] by (simp add: set_config_line_eq)
  ultimately show ?thesis by (simp add: prod_eq_iff)
qed

text \<open>
  Claim C3, as stated, fails: a document that ends with an empty line keeps it, so the new
  content ends with two newlines.
\<close>

theorem set_config_line_two_newlines_counterexample:
  "set_config_line ''PermitRootLogin yes\<newline>\<newline>'' ''PermitRootLogin'' ''no'' =
     (''PermitRootLogin no\<newline>\<newline>'', True) \<and>
   endswith ''PermitRootLogin no\<newline>\<newline>'' ''\<newline>\<newline>''"
  by code_simp

text \<open>
  Claim C3, amended: for every document, key and value, the new content returned by
  \<open>set_config_line\<close> ends with a newline, and the returned flag is true iff the new content
  differs from the old content after trailing-newline normalization (a newline added to a
  non-empty document that does not end with one); the new content ends with exactly one
  newline when the value does not end with a newline and the last line of the document is
  not empty.
\<close>

theorem set_config_line_newline_changed:
  "endswith (fst (set_config_line current key value)) ''\<newline>'' \<and>
   (snd (set_config_line current key value) \<longleftrightarrow>
      fst (set_config_line current key value) \<noteq> newline_normalized current) \<and>
   (\<not> endswith value ''\<newline>'' \<and> (splitlines current = [] \<or> last (splitlines current) \<noteq> []) \<longrightarrow>
      \<not> endswith (fst (set_config_line current key value)) ''\<newline>\<newline>'')"
proof (intro conjI impI)
  let ?out = "config_out current key value"
  obtain pre where pre: "join ''\<newline>'' ?out = pre @ last ?out"
    using join_last [OF out_lines_nonempty] by blast
  show "endswith (fst (set_config_line current key value)) ''\<newline>''"
  proof (cases "endswith (last ?out) ''\<newline>''")
    case True
    then obtain t where "last ?out = t @ ''\<newline>''"
      by (metis append_butlast_last_id endswith_single)
    then have "join ''\<newline>'' ?out = (pre @ t) @ ''\<newline>''" using pre by simp
    then show ?thesis using True
      by (simp only: set_config_line_eq fst_conv if_True append_Nil2 endswith_append)
  next
    case False
    then show ?thesis
      by (simp add: set_config_line_eq endswith_append)
  qed
  show "snd (set_config_line current key value) \<longleftrightarrow>
      fst (set_config_line current key value) \<noteq> newline_normalized current"
    by (simp add: set_config_line_eq)
  assume h: "\<not> endswith value ''\<newline>'' \<and>
             (splitlines current = [] \<or> last (splitlines current) \<noteq> [])"
  have ne: "last ?out \<noteq> []" and nl: "last (last ?out) \<noteq> CHR ''\<newline>''"
  proof -
    consider (kv) "last ?out = key @ '' '' @ value"
      | (old) "splitlines current \<noteq> []" "last ?out = last (splitlines current)"
      using last_out_lines by blast
    then have "last ?out \<noteq> [] \<and> last (last ?out) \<noteq> CHR ''\<newline>''"
    proof cases
      case kv
      then show ?thesis using h by (cases "value = []") (auto simp: endswith_single)
    next
      case old
      then have mem: "last ?out \<in> set (splitlines current)" by simp
      have "last ?out \<noteq> []" using old h by simp
      moreover from this have "last (last ?out) \<in> set (last ?out)" by simp
      then have "\<not> is_linebreak (last (last ?out))" using splitlines_no_break [OF mem] by blast
      then have "last (last ?out) \<noteq> CHR ''\<newline>''" using is_linebreak_newline by auto
      ultimately show ?thesis by simp
    qed
    then show "last ?out \<noteq> []" and "last (last ?out) \<noteq> CHR ''\<newline>''" by simp_all
  qed
  have not_end: "\<not> endswith (last ?out) ''\<newline>''" using nl by (simp add: endswith_single)
  have new: "fst (set_config_line current key value) = (pre @ last ?out) @ ''\<newline>''"
    using not_end pre by (simp add: set_config_line_eq)
  show "\<not> endswith (fst (set_config_line current key value)) ''\<newline>\<newline>''"
  proof
    assume "endswith (fst (set_config_line current key value)) ''\<newline>\<newline>''"
    then obtain t where "(pre @ last ?out) @ ''\<newline>'' = t @ ''\<newline>\<newline>''"
      using new endswith_double by metis
    then have "pre @ last ?out = t @ ''\<newline>''" by simp
    then have "last (pre @ last ?out) = CHR ''\<newline>''" by simp
    then show False using ne nl by simp
  qed
qed


theorem set_config_line_newline_changed_witness:
  "\<not> endswith ''no'' ''\<newline>'' \<and>
   last (splitlines ''# sshd\<newline>PermitRootLogin yes'') \<noteq> [] \<and>
   \<not> endswith (fst (set_config_line ''# sshd\<newline>PermitRootLogin yes'' ''PermitRootLogin'' ''no''))
       ''\<newline>\<newline>'' \<and>
   endswith (fst (set_config_line ''# sshd\<newline>PermitRootLogin yes'' ''PermitRootLogin'' ''no''))
       ''\<newline>'' \<and>
   snd (set_config_line ''# sshd\<newline>PermitRootLogin yes'' ''PermitRootLogin'' ''no'')"
proof -
  have h: "\<not> endswith ''no'' ''\<newline>'' \<and>
           (splitlines ''# sshd\<newline>PermitRootLogin yes'' = [] \<or>
            last (splitlines ''# sshd\<newline>PermitRootLogin yes'') \<noteq> [])"
    by code_simp
  have l: "last (splitlines ''# sshd\<newline>PermitRootLogin yes'') \<noteq> []"
    by code_simp
  have c: "fst (set_config_line ''# sshd\<newline>PermitRootLogin yes'' ''PermitRootLogin'' ''no'') \<noteq>
           newline_normalized ''# sshd\<newline>PermitRootLogin yes''"
    by code_simp
  show ?thesis
    using set_config_line_newline_changed
      [of "''# sshd\<newline>PermitRootLogin yes''" "''PermitRootLogin''" "''no''"] h l c
    by blast
qed

text \<open>
  Claim C9 fails on the code, whose docstring asks for a config line with the key and the
  value: \<open>\s+\<close> between key and value also matches a line break, so a key at the end of
  one line and the value at the start of the next are accepted, although no line of the
  document holds the key followed by the value.
\<close>

theorem verify_config_line_across_lines:
  "verify_config_line ''PermitRootLogin\<newline>no\<newline>'' ''PermitRootLogin'' ''no'' \<and>
   splitlines ''PermitRootLogin\<newline>no\<newline>'' = [''PermitRootLogin'', ''no''] \<and>
   \<not> verify_config_line ''PermitRootLogin'' ''PermitRootLogin'' ''no'' \<and>
   \<not> verify_config_line ''no'' ''PermitRootLogin'' ''no''"
  by code_simp

subsection \<open>Tools\<close>

lemma first_denied_Some:
  "first_denied parts = Some part \<Longrightarrow>
   \<exists>p \<in> set parts. part = strip p \<and> part \<noteq> [] \<and> \<not> cmd_allowed part"
  by (induction parts) (auto simp: Let_def split: if_splits)

lemma first_denied_None:
  "first_denied parts = None \<longleftrightarrow> (\<forall>p \<in> set parts. strip p = [] \<or> cmd_allowed (strip p))"
  by (induction parts) (auto simp: Let_def)

text \<open>
  What the gate of \<open>tool_run_safe\<close> does do: when a part of the command, as the code splits
  it, is not empty and not allowed, the result is the failure that names the first such
  part, and the executor is not called.
\<close>

lemma run_safe_denied:
  "first_denied (cmd_parts_of cmd) = Some part \<Longrightarrow>
   tool_run_safe ex cmd log =
     (Inr [(''ok'', JBool False), (''stderr'', JStr (''command not allowed by policy: '' @ part))],
      log)"
  by (simp add: tool_run_safe_def)

lemma run_safe_allowed:
  "first_denied (cmd_parts_of cmd) = None \<Longrightarrow> snd (tool_run_safe ex cmd log) = log @ [cmd]"
  by (simp add: tool_run_safe_def split: sum.splits prod.splits)

lemma rm_denied: "\<not> cmd_allowed ''rm -rf /''"
  by code_simp

lemma systemctl_allowed: "cmd_allowed ''systemctl restart ssh''"
  by code_simp

text \<open>
  Claim C1 fails on the code.  The code splits on \<open>&&\<close> and only when there is no \<open>&&\<close> on
  \<open>;\<close>, although its comment speaks of commands separated by \<open>&&\<close> or \<open>;\<close>.  In a command
  with both separators the part after \<open>;\<close> is not checked on its own: it rides along in a
  part that matches a pattern ending in \<open>.*\<close>, and the whole command reaches the executor.
\<close>

theorem run_safe_mixed_separators:
  "cmd_parts_of ''pwd && nohup ls; rm -rf /'' = [''pwd '', '' nohup ls; rm -rf /''] \<and>
   \<not> cmd_allowed ''rm -rf /'' \<and>
   snd (tool_run_safe ex ''pwd && nohup ls; rm -rf /'' log) = log @ [''pwd && nohup ls; rm -rf /''] \<and>
   tool_run_safe example_executor ''pwd && nohup ls; rm -rf /'' [] =
     (Inr [(''ok'', JBool True), (''rc'', JInt 0), (''stdout'', JStr []), (''stderr'', JStr [])],
      [''pwd && nohup ls; rm -rf /''])"
proof -
  have p: "cmd_parts_of ''pwd && nohup ls; rm -rf /'' = [''pwd '', '' nohup ls; rm -rf /'']"
    by code_simp
  have fd: "first_denied (cmd_parts_of ''pwd && nohup ls; rm -rf /'') = None"
    by code_simp
  have r: "\<not> cmd_allowed ''rm -rf /''"
    by code_simp
  have s: "snd (tool_run_safe ex ''pwd && nohup ls; rm -rf /'' log) =
             log @ [''pwd && nohup ls; rm -rf /'']"
    by (simp add: tool_run_safe_def fd split: sum.splits prod.splits)
  have e: "tool_run_safe example_executor ''pwd && nohup ls; rm -rf /'' [] =
     (Inr [(''ok'', JBool True), (''rc'', JInt 0), (''stdout'', JStr []), (''stderr'', JStr [])],
      [''pwd && nohup ls; rm -rf /''])"
    by (simp add: tool_run_safe_def fd example_executor_def)
  show ?thesis using p r s e by blast
qed

text \<open>
  Claim C10: \<open>tool_run_command\<close> returns what \<open>tool_run_safe\<close> returns, for every command,
  executor and history, and leaves the executor in the same state.
\<close>

theorem run_command_is_run_safe:
  "tool_run_command ex cmd log = tool_run_safe ex cmd log"
  by (simp add: tool_run_command_def)














subsection \<open>The dispatcher\<close>

lemma branches_cover_catalog: "map fst TOOL_BRANCHES = map fst TOOLS_REQUIRED"
  by code_simp

text \<open>
  Every parameter that a tool schema requires is checked by the branch of that tool, and
  the message of the branch contains its name.
\<close>

lemma required_are_checked:
  "list_all (\<lambda>(n, ps). case map_of TOOL_BRANCHES n of
                           None \<Rightarrow> False
                         | Some t \<Rightarrow> list_all (\<lambda>p. p \<in> set (checked t) \<and> sublist p (missing_msg t)) ps)
            TOOLS_REQUIRED"
  by code_simp

lemma required_checked:
  assumes "map_of TOOLS_REQUIRED name = Some ps" and "p \<in> set ps"
  shows "\<exists>t. map_of TOOL_BRANCHES name = Some t \<and> p \<in> set (checked t) \<and>
             sublist p (missing_msg t)"
proof -
  have "(name, ps) \<in> set TOOLS_REQUIRED" using assms(1) by (rule map_of_SomeD)
  then have "case map_of TOOL_BRANCHES name of
               None \<Rightarrow> False
             | Some t \<Rightarrow> list_all (\<lambda>p. p \<in> set (checked t) \<and> sublist p (missing_msg t)) ps"
    using required_are_checked by (auto simp: list_all_iff)
  then show ?thesis using assms(2) by (auto simp: list_all_iff split: option.splits)
qed

lemma unknown_name:
  "map_of TOOLS_REQUIRED name = None \<longleftrightarrow> map_of TOOL_BRANCHES name = None"
  by (metis branches_cover_catalog map_of_eq_None_iff set_map)

text \<open>
  Claim C8, amended: for every operation name and argument mapping, \<open>dispatch_tool\<close>
  returns a dict and never raises.  When the normalisation of the arguments raises (a
  \<open>package_names\<close> or \<open>packages\<close> list with an item that is not a string), the result is
  \<open>ok = False\<close> with a \<open>tool execution error\<close> message, whatever the operation name.
  Otherwise an unknown operation name yields \<open>ok = False\<close> with the \<open>unknown tool\<close>
  message, a missing required parameter yields \<open>ok = False\<close> with a message that names it,
  and a fault raised by the invoked operation is caught and converted to \<open>ok = False\<close>.
  In every case the result either has \<open>ok = False\<close> or is what a tool function returned.
\<close>

theorem dispatch_tool_structured:
  "(normalize_args name args = Inl e \<longrightarrow>
      dispatch_tool tools name args =
        [(''ok'', JBool False), (''stderr'', JStr (''tool execution error: '' @ str_exn e))]) \<and>
   (normalize_args name args = Inr na \<and> map_of TOOLS_REQUIRED name = None \<longrightarrow>
      dispatch_tool tools name args =
        [(''ok'', JBool False), (''stderr'', JStr (''unknown tool '' @ name))]) \<and>
   (normalize_args name args = Inr na \<and> map_of TOOLS_REQUIRED name = Some ps \<and>
    p \<in> set ps \<and> \<not> has_key na p \<longrightarrow>
      (\<exists>msg. dispatch_tool tools name args = [(''ok'', JBool False), (''stderr'', JStr msg)] \<and>
             sublist p msg)) \<and>
   (normalize_args name args = Inr na \<and> map_of TOOL_BRANCHES name = Some t \<and>
    list_all (has_key na) (checked t) \<and> bind_kwargs t na = Inr kwargs \<and>
    tools (fname t) kwargs = Inl e \<longrightarrow>
      dispatch_tool tools name args =
        [(''ok'', JBool False), (''stderr'', JStr (''tool execution error: '' @ str_exn e))]) \<and>
   (map_of (dispatch_tool tools name args) ''ok'' = Some (JBool False) \<or>
    (\<exists>f kwargs. tools f kwargs = Inr (dispatch_tool tools name args)))"
proof (intro conjI impI)
  assume "normalize_args name args = Inl e"
  then show "dispatch_tool tools name args =
        [(''ok'', JBool False), (''stderr'', JStr (''tool execution error: '' @ str_exn e))]"
    by (simp add: dispatch_tool_def dispatch_body_def)
next
  assume "normalize_args name args = Inr na \<and> map_of TOOLS_REQUIRED name = None"
  then show "dispatch_tool tools name args =
        [(''ok'', JBool False), (''stderr'', JStr (''unknown tool '' @ name))]"
    by (simp add: dispatch_tool_def dispatch_body_def unknown_name)
next
  assume h: "normalize_args name args = Inr na \<and> map_of TOOLS_REQUIRED name = Some ps \<and>
    p \<in> set ps \<and> \<not> has_key na p"
  then obtain t where t: "map_of TOOL_BRANCHES name = Some t" "p \<in> set (checked t)"
      "sublist p (missing_msg t)"
    using required_checked by blast
  have "list_ex (\<lambda>p. \<not> has_key na p) (checked t)"
    using h t(2) by (auto simp: list_ex_iff)
  then have "dispatch_tool tools name args =
      [(''ok'', JBool False), (''stderr'', JStr (missing_msg t))]"
    using h t(1) by (simp add: dispatch_tool_def dispatch_body_def)
  then show "\<exists>msg. dispatch_tool tools name args =
      [(''ok'', JBool False), (''stderr'', JStr msg)] \<and> sublist p msg"
    using t(3) by blast
next
  assume h: "normalize_args name args = Inr na \<and> map_of TOOL_BRANCHES name = Some t \<and>
    list_all (has_key na) (checked t) \<and> bind_kwargs t na = Inr kwargs \<and>
    tools (fname t) kwargs = Inl e"
  then have "\<not> list_ex (\<lambda>p. \<not> has_key na p) (checked t)"
    by (auto simp: list_ex_iff list_all_iff)
  then show "dispatch_tool tools name args =
        [(''ok'', JBool False), (''stderr'', JStr (''tool execution error: '' @ str_exn e))]"
    using h by (simp add: dispatch_tool_def dispatch_body_def)
next
  show "map_of (dispatch_tool tools name args) ''ok'' = Some (JBool False) \<or>
    (\<exists>f kwargs. tools f kwargs = Inr (dispatch_tool tools name args))"
  proof (cases "dispatch_body tools name args")
    case (Inl e)
    then show ?thesis by (simp add: dispatch_tool_def)
  next
    case (Inr r)
    then have "map_of r ''ok'' = Some (JBool False) \<or> (\<exists>f kwargs. tools f kwargs = Inr r)"
      by (auto simp: dispatch_body_def split: sum.splits option.splits if_splits)
    then show ?thesis using Inr by (simp add: dispatch_tool_def)
  qed
qed

theorem dispatch_tool_structured_witness:
  "normalize_args ''frobnicate'' [(''packages'', JList [JInt 1])] =
     Inl (PyException ''sequence item 0: expected str instance, int found'') \<and>
   dispatch_tool ok_tools ''frobnicate'' [(''packages'', JList [JInt 1])] =
     [(''ok'', JBool False),
      (''stderr'', JStr ''tool execution error: sequence item 0: expected str instance, int found'')] \<and>
   normalize_args ''frobnicate'' [(''command'', JStr ''pwd'')] = Inr [(''cmd'', JStr ''pwd'')] \<and>
   map_of TOOLS_REQUIRED ''frobnicate'' = None \<and>
   dispatch_tool ok_tools ''frobnicate'' [(''command'', JStr ''pwd'')] =
     [(''ok'', JBool False), (''stderr'', JStr ''unknown tool frobnicate'')] \<and>
   normalize_args ''write_file'' [(''file_path'', JStr ''/tmp/x'')] = Inr [(''path'', JStr ''/tmp/x'')] \<and>
   map_of TOOLS_REQUIRED ''write_file'' = Some [''path'', ''content''] \<and>
   ''content'' \<in> set [''path'', ''content''] \<and>
   \<not> has_key [(''path'', JStr ''/tmp/x'')] ''content'' \<and>
   (\<exists>msg. dispatch_tool ok_tools ''write_file'' [(''file_path'', JStr ''/tmp/x'')] =
            [(''ok'', JBool False), (''stderr'', JStr msg)] \<and> sublist ''content'' msg) \<and>
   normalize_args ''run_safe'' [(''command'', JStr ''pwd'')] = Inr [(''cmd'', JStr ''pwd'')] \<and>
   map_of TOOL_BRANCHES ''run_safe'' =
     Some (entry [''cmd''] ''missing required parameter: cmd'' ''tool_run_safe'' [''cmd''] [''cmd'']) \<and>
   tools_with_run_safe exhausted_executor [] ok_tools ''tool_run_safe'' [(''cmd'', JStr ''pwd'')] =
     Inl (PyException ''Connection pool exhausted for root@10.0.0.5:22. Max connections: 5'') \<and>
   dispatch_tool (tools_with_run_safe exhausted_executor [] ok_tools) ''run_safe''
       [(''command'', JStr ''pwd'')] =
     [(''ok'', JBool False),
      (''stderr'', JStr ''tool execution error: Connection pool exhausted for root@10.0.0.5:22. Max connections: 5'')]"
proof -
  have a1: "normalize_args ''frobnicate'' [(''packages'', JList [JInt 1])] =
     Inl (PyException ''sequence item 0: expected str instance, int found'')"
    by code_simp
  have a2: "dispatch_tool ok_tools ''frobnicate'' [(''packages'', JList [JInt 1])] =
     [(''ok'', JBool False),
      (''stderr'', JStr ''tool execution error: sequence item 0: expected str instance, int found'')]"
    using dispatch_tool_structured
      [of "''frobnicate''" "[(''packages'', JList [JInt 1])]"
          "PyException ''sequence item 0: expected str instance, int found''" ok_tools]
      a1 by simp
  have b1: "normalize_args ''frobnicate'' [(''command'', JStr ''pwd'')] = Inr [(''cmd'', JStr ''pwd'')]"
    by code_simp
  have b2: "map_of TOOLS_REQUIRED ''frobnicate'' = None"
    by code_simp
  have b3: "dispatch_tool ok_tools ''frobnicate'' [(''command'', JStr ''pwd'')] =
     [(''ok'', JBool False), (''stderr'', JStr ''unknown tool frobnicate'')]"
    using dispatch_tool_structured
      [of "''frobnicate''" "[(''command'', JStr ''pwd'')]" _ ok_tools "[(''cmd'', JStr ''pwd'')]"]
      b1 b2 by simp
  have c1: "normalize_args ''write_file'' [(''file_path'', JStr ''/tmp/x'')] =
     Inr [(''path'', JStr ''/tmp/x'')]"
    by code_simp
  have c2: "map_of TOOLS_REQUIRED ''write_file'' = Some [''path'', ''content'']"
    by code_simp
  have c3: "\<not> has_key [(''path'', JStr ''/tmp/x'')] ''content''"
    by code_simp
  have c4: "\<exists>msg. dispatch_tool ok_tools ''write_file'' [(''file_path'', JStr ''/tmp/x'')] =
            [(''ok'', JBool False), (''stderr'', JStr msg)] \<and> sublist ''content'' msg"
    using dispatch_tool_structured
      [of "''write_file''" "[(''file_path'', JStr ''/tmp/x'')]" _ ok_tools
          "[(''path'', JStr ''/tmp/x'')]" "[''path'', ''content'']" "''content''"]
      c1 c2 c3 by simp
  have d1: "normalize_args ''run_safe'' [(''command'', JStr ''pwd'')] = Inr [(''cmd'', JStr ''pwd'')]"
    by code_simp
  have d2: "map_of TOOL_BRANCHES ''run_safe'' =
     Some (entry [''cmd''] ''missing required parameter: cmd'' ''tool_run_safe'' [''cmd''] [''cmd''])"
    by code_simp
  have d3: "list_all (has_key [(''cmd'', JStr ''pwd'')])
              (checked (entry [''cmd''] ''missing required parameter: cmd'' ''tool_run_safe''
                 [''cmd''] [''cmd'']))"
    by code_simp
  have d4: "bind_kwargs (entry [''cmd''] ''missing required parameter: cmd'' ''tool_run_safe''
                 [''cmd''] [''cmd'']) [(''cmd'', JStr ''pwd'')] = Inr [(''cmd'', JStr ''pwd'')]"
    by code_simp
  have d5: "tools_with_run_safe exhausted_executor [] ok_tools ''tool_run_safe''
              [(''cmd'', JStr ''pwd'')] =
     Inl (PyException ''Connection pool exhausted for root@10.0.0.5:22. Max connections: 5'')"
    by code_simp
  have fn: "fname (entry [''cmd''] ''missing required parameter: cmd'' ''tool_run_safe''
                 [''cmd''] [''cmd'']) = ''tool_run_safe''"
    by (simp add: entry_def)
  have d6: "dispatch_tool (tools_with_run_safe exhausted_executor [] ok_tools) ''run_safe''
       [(''command'', JStr ''pwd'')] =
     [(''ok'', JBool False),
      (''stderr'', JStr ''tool execution error: Connection pool exhausted for root@10.0.0.5:22. Max connections: 5'')]"
    using dispatch_tool_structured
      [of "''run_safe''" "[(''command'', JStr ''pwd'')]"
          "PyException ''Connection pool exhausted for root@10.0.0.5:22. Max connections: 5''"
          "tools_with_run_safe exhausted_executor [] ok_tools" "[(''cmd'', JStr ''pwd'')]" _ _
          "entry [''cmd''] ''missing required parameter: cmd'' ''tool_run_safe'' [''cmd''] [''cmd'']"
          "[(''cmd'', JStr ''pwd'')]"]
      d1 d2 d3 d4 d5 fn by simp
  show ?thesis using a1 a2 b1 b2 b3 c1 c2 c3 c4 d1 d2 d5 d6 by simp
qed

text \<open>
  Claim C8, as stated, fails in one point: the alias normalisation runs before the
  operation name is looked at and inside the same \<open>try\<close> block, so an unknown operation
  name with a \<open>packages\<close> list that holds a number yields \<open>tool execution error\<close>, not
  \<open>unknown tool\<close>.
\<close>

theorem dispatch_tool_counterexample:
  "dispatch_tool ok_tools ''frobnicate'' [(''packages'', JList [JInt 1])] =
     [(''ok'', JBool False),
      (''stderr'', JStr ''tool execution error: sequence item 0: expected str instance, int found'')] \<and>
   map_of TOOLS_REQUIRED ''frobnicate'' = None"
  by code_simp


subsection \<open>The connection pool\<close>

lemma pop_live_length: "length (snd (pop_live alive xs)) \<le> length xs"
  by (induction xs) auto

lemma pop_live_Some_length:
  "fst (pop_live alive xs) = Some c \<Longrightarrow> length (snd (pop_live alive xs)) < length xs"
  by (induction xs) (auto simp: le_imp_less_Suc pop_live_length)

lemma pop_live_None: "fst (pop_live alive xs) = None \<Longrightarrow> snd (pop_live alive xs) = []"
  by (induction xs) auto

lemma pop_live_all_dead: "\<forall>c \<in> set xs. \<not> alive c \<Longrightarrow> pop_live alive xs = (None, [])"
  by (induction xs) auto

lemma get_connection_max:
  "max_connections_per_host (snd (get_connection alive created c p)) = max_connections_per_host p"
  by (simp add: get_connection_def Let_def split: prod.splits option.splits sum.splits)

lemma get_connection_other:
  "k \<noteq> get_pool_key c \<Longrightarrow>
   pools (snd (get_connection alive created c p)) k = pools p k \<and>
   active_connections (snd (get_connection alive created c p)) k = active_connections p k"
  by (simp add: get_connection_def Let_def split: prod.splits option.splits sum.splits)

lemma get_connection_inv:
  assumes "pool_inv p k"
  shows "pool_inv (snd (get_connection alive created c p)) k"
proof (cases "k = get_pool_key c")
  case False
  with assms show ?thesis
    using get_connection_other [OF False, of alive created p]
    by (simp add: pool_inv_def get_connection_max)
next
  case True
  obtain found rest where pl: "pop_live alive (rev (pools p k)) = (found, rest)"
    by (cases "pop_live alive (rev (pools p k))")
  show ?thesis
  proof (cases found)
    case None
    then have "rest = []"
      using pop_live_None [of alive "rev (pools p k)"] pl by simp
    with None pl True assms show ?thesis
      by (auto simp: get_connection_def Let_def pool_inv_def split: sum.splits)
  next
    case (Some conn)
    then have "length rest < length (pools p k)"
      using pop_live_Some_length [of alive "rev (pools p k)" conn] pl by simp
    with Some pl True assms show ?thesis
      by (auto simp: get_connection_def Let_def pool_inv_def)
  qed
qed

lemma return_connection_inv:
  assumes "pool_inv p k" and "0 < active_connections p (get_pool_key c)"
  shows "pool_inv (return_connection a c conn p) k"
  using assms by (auto simp: return_connection_def Let_def pool_inv_def)

lemma get_connection_active:
  "active_connections (snd (get_connection alive created c p)) k =
     (case fst (get_connection alive created c p) of
        Inr conn \<Rightarrow> if k = get_pool_key c then active_connections p k + 1
                    else active_connections p k
      | Inl e \<Rightarrow> active_connections p k)"
  by (simp add: get_connection_def Let_def split: prod.splits option.splits sum.splits)

lemma return_connection_active:
  "active_connections (return_connection a c conn p) k =
     (if k = get_pool_key c then active_connections p k - 1 else active_connections p k)"
  by (simp add: return_connection_def Let_def)

lemma checked_out_count_pos: "e \<in> set out \<Longrightarrow> 0 < checked_out_count out (fst e)"
  by (induction out) (auto simp: checked_out_count_def)

lemma checked_out_count_remove1:
  "e \<in> set out \<Longrightarrow>
   checked_out_count (remove1 e out) k =
     (if fst e = k then checked_out_count out k - 1 else checked_out_count out k)"
proof (induction out)
  case Nil
  then show ?case by simp
next
  case (Cons a out)
  show ?case
  proof (cases "a = e")
    case True
    then show ?thesis by (simp add: checked_out_count_def)
  next
    case False
    then have mem: "e \<in> set out" using Cons.prems by simp
    have "0 < checked_out_count out (fst e)" by (rule checked_out_count_pos [OF mem])
    then show ?thesis using False Cons.IH [OF mem]
      by (auto simp: checked_out_count_def)
  qed
qed

text \<open>
  The invariant is kept along a paired sequence; the number of checked-out sessions of a
  key never exceeds its active counter, so a paired release always finds the counter
  positive.
\<close>

lemma paired_inv:
  assumes "paired p out es"
    and "\<forall>k. pool_inv p k"
    and "\<forall>k. checked_out_count out k \<le> active_connections p k"
  shows "pool_inv (pool_run p es) k"
  using assms
proof (induction es arbitrary: p out)
  case Nil
  then show ?case by simp
next
  case (Cons e es)
  show ?case
  proof (cases e)
    case (Acquire c alive created)
    let ?p' = "snd (get_connection alive created c p)"
    let ?out' = "checked_out_step p out (Acquire c alive created)"
    have 1: "paired ?p' ?out' es" using Cons.prems(1) Acquire by simp
    have 2: "\<forall>k. pool_inv ?p' k" using Cons.prems(2) get_connection_inv by blast
    have 3: "\<forall>k. checked_out_count ?out' k \<le> active_connections ?p' k"
      using Cons.prems(3)
      by (auto simp: get_connection_active checked_out_count_def le_SucI split: sum.splits)
    show ?thesis using Cons.IH [OF 1 2 3] Acquire by simp
  next
    case (Release c conn a)
    let ?p' = "return_connection a c conn p"
    let ?out' = "remove1 (get_pool_key c, conn) out"
    have mem: "(get_pool_key c, conn) \<in> set out" using Cons.prems(1) Release by simp
    have pos: "0 < active_connections p (get_pool_key c)"
      using checked_out_count_pos [OF mem] Cons.prems(3)
      by (metis fst_conv less_le_trans)
    have 1: "paired ?p' ?out' es" using Cons.prems(1) Release by simp
    have 2: "\<forall>k. pool_inv ?p' k" using Cons.prems(2) return_connection_inv pos by blast
    have 3: "\<forall>k. checked_out_count ?out' k \<le> active_connections ?p' k"
      using Cons.prems(3)
      by (auto simp: return_connection_active checked_out_count_remove1 [OF mem] diff_le_mono)
    show ?thesis using Cons.IH [OF 1 2 3] Release by simp
  qed
qed

text \<open>
  Claim C6, as stated, fails: \<open>return_connection\<close> accepts any session and does not check
  that it was handed out.  With a bound of 1, one acquire followed by two releases of the
  same live session leaves two idle sessions and no active one, so idle + active = 2 > 1.
\<close>

theorem pool_invariant_counterexample:
  "\<not> pool_inv (pool_run (new_pool 1)
        [Acquire example_config always_alive (Inr 7),
         Release example_config 7 True,
         Release example_config 7 True]) (get_pool_key example_config)"
  by (simp add: pool_inv_def new_pool_def get_connection_def return_connection_def Let_def)

text \<open>
  Claim C6, amended: for every endpoint, idle + active \<open>\<le>\<close> max_per_endpoint holds in every
  state reached from an empty pool by a sequence of acquires and releases in which every
  release gives back a session that an earlier acquire on the same endpoint handed out and
  that has not been released since.
\<close>

theorem pool_invariant_paired:
  "paired (new_pool m) [] es \<Longrightarrow> pool_inv (pool_run (new_pool m) es) k"
  by (rule paired_inv) (auto simp: new_pool_def pool_inv_def checked_out_count_def)

theorem pool_invariant_paired_witness:
  "paired (new_pool 1) []
     [Acquire example_config always_alive (Inr 7), Release example_config 7 True,
      Acquire example_config always_alive (Inr 8)] \<and>
   pool_inv (pool_run (new_pool 1)
     [Acquire example_config always_alive (Inr 7), Release example_config 7 True,
      Acquire example_config always_alive (Inr 8)]) (get_pool_key example_config)"
proof -
  have h: "paired (new_pool 1) []
     [Acquire example_config always_alive (Inr 7), Release example_config 7 True,
      Acquire example_config always_alive (Inr 8)]"
    by (simp add: new_pool_def get_connection_def return_connection_def Let_def
          always_alive_def)
  show ?thesis using h pool_invariant_paired [OF h] by simp
qed

text \<open>
  Claim C7: when no idle session of the endpoint is alive and the active count equals the
  bound, \<open>get_connection\<close> returns the pool-exhausted error at once (the function is total
  and makes no attempt to create a session); and with a bound of 2, three acquires on the
  same endpoint of a new pool, with connection set-up succeeding, give two sessions and
  then the pool-exhausted error.
\<close>

theorem pool_exhausted_at_capacity:
  "((\<forall>s \<in> set (pools p (get_pool_key c)). \<not> alive s) \<and>
    active_connections p (get_pool_key c) = max_connections_per_host p \<longrightarrow>
      fst (get_connection alive created c p) =
        Inl (PoolExhausted (get_pool_key c) (max_connections_per_host p))) \<and>
   acquire_results (new_pool 2)
     [Acquire c a1 (Inr s1), Acquire c a2 (Inr s2), Acquire c a3 created] =
     [Inr s1, Inr s2, Inl (PoolExhausted (get_pool_key c) 2)]"
proof
  show "(\<forall>s \<in> set (pools p (get_pool_key c)). \<not> alive s) \<and>
    active_connections p (get_pool_key c) = max_connections_per_host p \<longrightarrow>
      fst (get_connection alive created c p) =
        Inl (PoolExhausted (get_pool_key c) (max_connections_per_host p))"
  proof
    assume h: "(\<forall>s \<in> set (pools p (get_pool_key c)). \<not> alive s) \<and>
      active_connections p (get_pool_key c) = max_connections_per_host p"
    then have "pop_live alive (rev (pools p (get_pool_key c))) = (None, [])"
      by (intro pop_live_all_dead) simp
    with h show "fst (get_connection alive created c p) =
        Inl (PoolExhausted (get_pool_key c) (max_connections_per_host p))"
      by (simp add: get_connection_def Let_def)
  qed
next
  show "acquire_results (new_pool 2)
     [Acquire c a1 (Inr s1), Acquire c a2 (Inr s2), Acquire c a3 created] =
     [Inr s1, Inr s2, Inl (PoolExhausted (get_pool_key c) 2)]"
    by (simp add: new_pool_def get_connection_def Let_def)
qed

theorem pool_exhausted_at_capacity_witness:
  "pools (pool_run (new_pool 1)
        [Acquire example_config always_alive (Inr 7),
         Release example_config 7 True,
         Acquire example_config always_alive (Inr 8)]) (get_pool_key example_config) = [] \<and>
   active_connections (pool_run (new_pool 1)
        [Acquire example_config always_alive (Inr 7),
         Release example_config 7 True,
         Acquire example_config always_alive (Inr 8)]) (get_pool_key example_config) =
     max_connections_per_host (pool_run (new_pool 1)
        [Acquire example_config always_alive (Inr 7),
         Release example_config 7 True,
         Acquire example_config always_alive (Inr 8)]) \<and>
   fst (get_connection never_alive (Inr 9) example_config
         (pool_run (new_pool 1)
           [Acquire example_config always_alive (Inr 7),
            Release example_config 7 True,
            Acquire example_config always_alive (Inr 8)])) =
     Inl (PoolExhausted (get_pool_key example_config) 1)"
  using pool_exhausted_at_capacity
    [of "pool_run (new_pool 1)
           [Acquire example_config always_alive (Inr 7),
            Release example_config 7 True,
            Acquire example_config always_alive (Inr 8)]"
        example_config never_alive "Inr 9"]
  by (simp add: new_pool_def get_connection_def return_connection_def Let_def
        always_alive_def never_alive_def)

subsection \<open>The orchestration loop\<close>

text \<open>
  The loop from attempt number \<open>n\<close> on, when the attempt \<open>j\<close> steps later is the first one
  whose verification succeeds and lies within the bound.
\<close>

lemma attempts_loop_success:
  assumes "\<forall>i<j. \<not> verified (verification (fst (attempt_seq ag goal n prev w i)))"
    and "verified (verification (fst (attempt_seq ag goal n prev w j)))"
    and "n + int j \<le> m"
  shows "attempts_loop ag goal m [n..m] acc prev w =
     (Some \<lparr> r_goal = goal, r_success = True,
             r_attempts = acc @ map (\<lambda>i. fst (attempt_seq ag goal n prev w i)) [0..<Suc j],
             r_final_attempt = n + int j,
             r_plan = plan (fst (attempt_seq ag goal n prev w j)),
             r_execution = execution (fst (attempt_seq ag goal n prev w j)),
             r_verification = verification (fst (attempt_seq ag goal n prev w j)) \<rparr>,
      acc @ map (\<lambda>i. fst (attempt_seq ag goal n prev w i)) [0..<Suc j],
      snd (attempt_seq ag goal n prev w j))"
  using assms
proof (induction j arbitrary: n prev w acc)
  case 0
  obtain a w' where r: "run_attempt ag goal n prev w = (a, w')"
    by (cases "run_attempt ag goal n prev w")
  have u: "[n..m] = n # [n + 1..m]" using "0.prems"(3) by (simp add: upto_rec1)
  show ?case using "0.prems"(2) r by (simp add: u Let_def)
next
  case (Suc j)
  obtain a w' where r: "run_attempt ag goal n prev w = (a, w')"
    by (cases "run_attempt ag goal n prev w")
  have u: "[n..m] = n # [n + 1..m]" using Suc.prems(3) by (simp add: upto_rec1)
  have lt: "n < m" using Suc.prems(3) by simp
  have nv: "\<not> verified (verification a)" using Suc.prems(1) r by force
  have seq: "attempt_seq ag goal n prev w (Suc i) = attempt_seq ag goal (n + 1) (Some a) w' i" for i
    using r by simp
  have 1: "\<forall>i<j. \<not> verified (verification (fst (attempt_seq ag goal (n + 1) (Some a) w' i)))"
    using Suc.prems(1) seq by (metis Suc_less_eq)
  have 2: "verified (verification (fst (attempt_seq ag goal (n + 1) (Some a) w' j)))"
    using Suc.prems(2) seq by simp
  have 3: "n + 1 + int j \<le> m" using Suc.prems(3) by simp
  have m: "map (\<lambda>i. fst (attempt_seq ag goal n prev w i)) [0..<Suc (Suc j)] =
           a # map (\<lambda>i. fst (attempt_seq ag goal (n + 1) (Some a) w' i)) [0..<Suc j]"
  proof -
    have "[0..<Suc (Suc j)] = 0 # map Suc [0..<Suc j]"
      by (metis map_Suc_upt upt_conv_Cons zero_less_Suc)
    then show ?thesis using r seq by (simp add: comp_def del: upt_Suc)
  qed
  have "attempts_loop ag goal m [n..m] acc prev w =
        attempts_loop ag goal m [n + 1..m] (acc @ [a]) (Some a) w'"
    using r nv lt by (simp add: u)
  also have "\<dots> = (Some \<lparr> r_goal = goal, r_success = True,
             r_attempts = (acc @ [a]) @ map (\<lambda>i. fst (attempt_seq ag goal (n + 1) (Some a) w' i)) [0..<Suc j],
             r_final_attempt = n + 1 + int j,
             r_plan = plan (fst (attempt_seq ag goal (n + 1) (Some a) w' j)),
             r_execution = execution (fst (attempt_seq ag goal (n + 1) (Some a) w' j)),
             r_verification = verification (fst (attempt_seq ag goal (n + 1) (Some a) w' j)) \<rparr>,
      (acc @ [a]) @ map (\<lambda>i. fst (attempt_seq ag goal (n + 1) (Some a) w' i)) [0..<Suc j],
      snd (attempt_seq ag goal (n + 1) (Some a) w' j))"
    by (rule Suc.IH [OF 1 2 3])
  finally show ?case using m seq by (simp del: upt_Suc attempt_seq.simps)
qed

text \<open>The loop from attempt number \<open>n\<close> on, when no verification up to the bound succeeds.\<close>

lemma attempts_loop_failure:
  assumes "\<forall>i<k. \<not> verified (verification (fst (attempt_seq ag goal n prev w i)))"
    and "m = n + int k - 1"
  shows "attempts_loop ag goal m [n..m] acc prev w =
     (None, acc @ map (\<lambda>i. fst (attempt_seq ag goal n prev w i)) [0..<k],
      (if k = 0 then w else snd (attempt_seq ag goal n prev w (k - 1))))"
  using assms
proof (induction k arbitrary: n prev w acc)
  case 0
  then show ?case by simp
next
  case (Suc k)
  obtain a w' where r: "run_attempt ag goal n prev w = (a, w')"
    by (cases "run_attempt ag goal n prev w")
  have u: "[n..m] = n # [n + 1..m]" using Suc.prems(2) by (simp add: upto_rec1)
  have nv: "\<not> verified (verification a)" using Suc.prems(1) r by force
  have seq: "attempt_seq ag goal n prev w (Suc i) = attempt_seq ag goal (n + 1) (Some a) w' i" for i
    using r by simp
  have 1: "\<forall>i<k. \<not> verified (verification (fst (attempt_seq ag goal (n + 1) (Some a) w' i)))"
    using Suc.prems(1) seq by (metis Suc_less_eq)
  have 2: "m = n + 1 + int k - 1" using Suc.prems(2) by simp
  have m: "map (\<lambda>i. fst (attempt_seq ag goal n prev w i)) [0..<Suc k] =
           a # map (\<lambda>i. fst (attempt_seq ag goal (n + 1) (Some a) w' i)) [0..<k]"
  proof -
    have "[0..<Suc k] = 0 # map Suc [0..<k]"
      by (metis map_Suc_upt upt_conv_Cons zero_less_Suc)
    then show ?thesis using r seq by (simp add: comp_def del: upt_Suc)
  qed
  show ?case
  proof (cases "k = 0")
    case True
    then have "[n + 1..m] = []" using Suc.prems(2) by simp
    then show ?thesis using True r nv by (simp add: u)
  next
    case False
    then have lt: "n < m" using Suc.prems(2) by simp
    have "attempts_loop ag goal m [n..m] acc prev w =
          attempts_loop ag goal m [n + 1..m] (acc @ [a]) (Some a) w'"
      using r nv lt by (simp add: u)
    also have "\<dots> = (None, (acc @ [a]) @ map (\<lambda>i. fst (attempt_seq ag goal (n + 1) (Some a) w' i)) [0..<k],
      (if k = 0 then w' else snd (attempt_seq ag goal (n + 1) (Some a) w' (k - 1))))"
      by (rule Suc.IH [OF 1 2])
    finally show ?thesis using m seq False
      by (cases k) (simp_all del: upt_Suc attempt_seq.simps)
  qed
qed

lemma map_nth_attempt:
  "map (\<lambda>i. fst (attempt_seq ag goal 1 None w0 i)) [0..<k] = map (nth_attempt ag goal w0) [1..<Suc k]"
proof -
  have "[1..<Suc k] = map Suc [0..<k]"
    by (metis One_nat_def map_Suc_upt)
  then show ?thesis by (simp add: nth_attempt_def comp_def del: upt_Suc)
qed

text \<open>
  Claim C5: once start-up has succeeded, for every \<open>k\<close> with 1 \<open>\<le>\<close> \<open>k\<close> \<open>\<le>\<close> max_retries,
  if the verification of the attempts 1, ..., \<open>k\<close> - 1 fails and that of attempt \<open>k\<close>
  succeeds, \<open>multi_agent_system\<close> returns success with exactly the \<open>k\<close> attempts recorded and
  the plan, execution and verification of attempt \<open>k\<close>; and if, with max_retries at least 1,
  the verification of every attempt up to max_retries fails, it returns failure with all
  attempts recorded and the plan, execution and verification of the last one.
\<close>

theorem retry_loop_result:
  assumes up: "ensure_up ag (set_allow_insecure ag allow_insecure w) = Some w0"
  shows
  "(1 \<le> k \<and> int k \<le> max_retries \<and>
    (\<forall>i. 1 \<le> i \<and> i < k \<longrightarrow> \<not> verified (verification (nth_attempt ag goal w0 i))) \<and>
    verified (verification (nth_attempt ag goal w0 k)) \<longrightarrow>
      (\<exists>r w'. multi_agent_system ag goal allow_insecure max_retries w = Some (Inr r, w') \<and>
         r_success r \<and> length (r_attempts r) = k \<and>
         r_attempts r = map (nth_attempt ag goal w0) [1..<Suc k] \<and>
         r_final_attempt r = int k \<and>
         r_plan r = plan (nth_attempt ag goal w0 k) \<and>
         r_execution r = execution (nth_attempt ag goal w0 k) \<and>
         r_verification r = verification (nth_attempt ag goal w0 k))) \<and>
   (1 \<le> max_retries \<and>
    (\<forall>i. 1 \<le> i \<and> int i \<le> max_retries \<longrightarrow>
         \<not> verified (verification (nth_attempt ag goal w0 i))) \<longrightarrow>
      (\<exists>r w'. multi_agent_system ag goal allow_insecure max_retries w = Some (Inr r, w') \<and>
         \<not> r_success r \<and> int (length (r_attempts r)) = max_retries \<and>
         r_attempts r = map (nth_attempt ag goal w0) [1..<Suc (nat max_retries)] \<and>
         r_final_attempt r = max_retries \<and>
         r_plan r = plan (nth_attempt ag goal w0 (nat max_retries)) \<and>
         r_execution r = execution (nth_attempt ag goal w0 (nat max_retries)) \<and>
         r_verification r = verification (nth_attempt ag goal w0 (nat max_retries))))"
proof (intro conjI impI)
  assume h: "1 \<le> k \<and> int k \<le> max_retries \<and>
    (\<forall>i. 1 \<le> i \<and> i < k \<longrightarrow> \<not> verified (verification (nth_attempt ag goal w0 i))) \<and>
    verified (verification (nth_attempt ag goal w0 k))"
  define j where "j = k - 1"
  have k: "k = Suc j" using h by (simp add: j_def)
  have 1: "\<forall>i<j. \<not> verified (verification (fst (attempt_seq ag goal 1 None w0 i)))"
  proof (intro allI impI)
    fix i assume "i < j"
    then have "1 \<le> Suc i \<and> Suc i < k" using k by simp
    then have "\<not> verified (verification (nth_attempt ag goal w0 (Suc i)))" using h by blast
    then show "\<not> verified (verification (fst (attempt_seq ag goal 1 None w0 i)))"
      by (simp add: nth_attempt_def)
  qed
  have 2: "verified (verification (fst (attempt_seq ag goal 1 None w0 j)))"
    using h by (simp add: nth_attempt_def j_def)
  have 3: "1 + int j \<le> max_retries" using h k by simp
  have nk: "nth_attempt ag goal w0 k = fst (attempt_seq ag goal 1 None w0 j)"
    by (simp add: nth_attempt_def j_def)
  have "multi_agent_system ag goal allow_insecure max_retries w =
     Some (Inr \<lparr> r_goal = goal, r_success = True,
             r_attempts = map (nth_attempt ag goal w0) [1..<Suc k],
             r_final_attempt = int k,
             r_plan = plan (nth_attempt ag goal w0 k),
             r_execution = execution (nth_attempt ag goal w0 k),
             r_verification = verification (nth_attempt ag goal w0 k) \<rparr>,
           snd (attempt_seq ag goal 1 None w0 j))"
    unfolding multi_agent_system_def up option.case
      attempts_loop_success [OF 1 2 3, of "[]"] nk
    using map_nth_attempt [of ag goal w0 "Suc j"] k by (simp del: upt_Suc)
  then show "\<exists>r w'. multi_agent_system ag goal allow_insecure max_retries w = Some (Inr r, w') \<and>
         r_success r \<and> length (r_attempts r) = k \<and>
         r_attempts r = map (nth_attempt ag goal w0) [1..<Suc k] \<and>
         r_final_attempt r = int k \<and>
         r_plan r = plan (nth_attempt ag goal w0 k) \<and>
         r_execution r = execution (nth_attempt ag goal w0 k) \<and>
         r_verification r = verification (nth_attempt ag goal w0 k)"
    by (simp del: upt_Suc)
next
  assume h: "1 \<le> max_retries \<and>
    (\<forall>i. 1 \<le> i \<and> int i \<le> max_retries \<longrightarrow>
         \<not> verified (verification (nth_attempt ag goal w0 i)))"
  define k where "k = nat max_retries"
  have kpos: "0 < k" and km: "int k = max_retries" using h by (simp_all add: k_def)
  have 1: "\<forall>i<k. \<not> verified (verification (fst (attempt_seq ag goal 1 None w0 i)))"
  proof (intro allI impI)
    fix i assume "i < k"
    then have "1 \<le> Suc i \<and> int (Suc i) \<le> max_retries" using km by simp
    then have "\<not> verified (verification (nth_attempt ag goal w0 (Suc i)))" using h by blast
    then show "\<not> verified (verification (fst (attempt_seq ag goal 1 None w0 i)))"
      by (simp add: nth_attempt_def)
  qed
  have 2: "max_retries = 1 + int k - 1" using km by simp
  have ne: "map (nth_attempt ag goal w0) [1..<Suc k] \<noteq> []" using kpos by simp
  have la: "last (map (nth_attempt ag goal w0) [1..<Suc k]) = nth_attempt ag goal w0 k"
    using kpos by (simp add: last_map)
  have "multi_agent_system ag goal allow_insecure max_retries w =
     Some (Inr \<lparr> r_goal = goal, r_success = False,
             r_attempts = map (nth_attempt ag goal w0) [1..<Suc k],
             r_final_attempt = max_retries,
             r_plan = plan (nth_attempt ag goal w0 k),
             r_execution = execution (nth_attempt ag goal w0 k),
             r_verification = verification (nth_attempt ag goal w0 k) \<rparr>,
           snd (attempt_seq ag goal 1 None w0 (k - 1)))"
    unfolding multi_agent_system_def up option.case
      attempts_loop_failure [OF 1 2, of "[]"] map_nth_attempt
    using ne la kpos by (simp del: upt_Suc)
  then show "\<exists>r w'. multi_agent_system ag goal allow_insecure max_retries w = Some (Inr r, w') \<and>
         \<not> r_success r \<and> int (length (r_attempts r)) = max_retries \<and>
         r_attempts r = map (nth_attempt ag goal w0) [1..<Suc (nat max_retries)] \<and>
         r_final_attempt r = max_retries \<and>
         r_plan r = plan (nth_attempt ag goal w0 (nat max_retries)) \<and>
         r_execution r = execution (nth_attempt ag goal w0 (nat max_retries)) \<and>
         r_verification r = verification (nth_attempt ag goal w0 (nat max_retries))"
    using km by (simp add: k_def del: upt_Suc)
qed


theorem retry_loop_result_witness:
  "ensure_up (stub_agents 2) (set_allow_insecure (stub_agents 2) False 0) = Some 0 \<and>
   \<not> verified (verification (nth_attempt (stub_agents 2) ''harden ssh'' 0 1)) \<and>
   verified (verification (nth_attempt (stub_agents 2) ''harden ssh'' 0 2)) \<and>
   (\<exists>r w'. multi_agent_system (stub_agents 2) ''harden ssh'' False 3 0 = Some (Inr r, w') \<and>
      r_success r \<and> length (r_attempts r) = 2 \<and> r_final_attempt r = 2 \<and>
      r_plan r = plan (nth_attempt (stub_agents 2) ''harden ssh'' 0 2)) \<and>
   ensure_up (stub_agents 5) (set_allow_insecure (stub_agents 5) False 0) = Some 0 \<and>
   \<not> verified (verification (nth_attempt (stub_agents 5) ''harden ssh'' 0 1)) \<and>
   \<not> verified (verification (nth_attempt (stub_agents 5) ''harden ssh'' 0 2)) \<and>
   \<not> verified (verification (nth_attempt (stub_agents 5) ''harden ssh'' 0 3)) \<and>
   (\<exists>r w'. multi_agent_system (stub_agents 5) ''harden ssh'' False 3 0 = Some (Inr r, w') \<and>
      \<not> r_success r \<and> length (r_attempts r) = 3 \<and> r_final_attempt r = 3 \<and>
      r_plan r = plan (nth_attempt (stub_agents 5) ''harden ssh'' 0 3))"
proof -
  have up2: "ensure_up (stub_agents 2) (set_allow_insecure (stub_agents 2) False 0) = Some 0"
    by (simp add: stub_agents_def)
  have up5: "ensure_up (stub_agents 5) (set_allow_insecure (stub_agents 5) False 0) = Some 0"
    by (simp add: stub_agents_def)
  have a1: "\<not> verified (verification (nth_attempt (stub_agents 2) ''harden ssh'' 0 1))"
    by (simp add: nth_attempt_def run_attempt_def stub_agents_def verified_def)
  have a2: "verified (verification (nth_attempt (stub_agents 2) ''harden ssh'' 0 2))"
    by (simp add: nth_attempt_def run_attempt_def stub_agents_def verified_def numeral_2_eq_2)
  have b1: "\<not> verified (verification (nth_attempt (stub_agents 5) ''harden ssh'' 0 1))"
    by (simp add: nth_attempt_def run_attempt_def stub_agents_def verified_def)
  have b2: "\<not> verified (verification (nth_attempt (stub_agents 5) ''harden ssh'' 0 2))"
    by (simp add: nth_attempt_def run_attempt_def stub_agents_def verified_def numeral_2_eq_2)
  have b3: "\<not> verified (verification (nth_attempt (stub_agents 5) ''harden ssh'' 0 3))"
    by (simp add: nth_attempt_def run_attempt_def stub_agents_def verified_def numeral_3_eq_3)
  have ha: "\<forall>i. 1 \<le> i \<and> i < 2 \<longrightarrow>
              \<not> verified (verification (nth_attempt (stub_agents 2) ''harden ssh'' 0 i))"
  proof (intro allI impI)
    fix i :: nat assume "1 \<le> i \<and> i < 2"
    then have "i = 1" by simp
    then show "\<not> verified (verification (nth_attempt (stub_agents 2) ''harden ssh'' 0 i))"
      using a1 by simp
  qed
  have hb: "\<forall>i. 1 \<le> i \<and> int i \<le> 3 \<longrightarrow>
              \<not> verified (verification (nth_attempt (stub_agents 5) ''harden ssh'' 0 i))"
  proof (intro allI impI)
    fix i :: nat assume "1 \<le> i \<and> int i \<le> 3"
    then have "i = 1 \<or> i = 2 \<or> i = 3" by auto
    then show "\<not> verified (verification (nth_attempt (stub_agents 5) ''harden ssh'' 0 i))"
      using b1 b2 b3 by auto
  qed
  have A: "\<exists>r w'. multi_agent_system (stub_agents 2) ''harden ssh'' False 3 0 = Some (Inr r, w') \<and>
      r_success r \<and> length (r_attempts r) = 2 \<and> r_final_attempt r = 2 \<and>
      r_plan r = plan (nth_attempt (stub_agents 2) ''harden ssh'' 0 2)"
    using retry_loop_result [OF up2, of 2 3 "''harden ssh''", THEN conjunct1] ha a2 by auto
  have B: "\<exists>r w'. multi_agent_system (stub_agents 5) ''harden ssh'' False 3 0 = Some (Inr r, w') \<and>
      \<not> r_success r \<and> length (r_attempts r) = 3 \<and> r_final_attempt r = 3 \<and>
      r_plan r = plan (nth_attempt (stub_agents 5) ''harden ssh'' 0 3)"
    using retry_loop_result [OF up5, of 1 3 "''harden ssh''", THEN conjunct2] hb by auto
  show ?thesis using up2 up5 a1 a2 b1 b2 b3 A B by blast
qed

end
